theory Spec2Isabelle
  imports Main "HOL-Library.Sublist"
begin

section \<open>Asset records and DVD chunks\<close>

text \<open>
  One row of the query in \<open>get_assets_from_db\<close>: the five selected columns. The size column
  comes from a nullable join column, so it is optional; the other columns are strings.
  The dictionary key \<open>id\<close> is named \<open>asset_id\<close> here, as the local variable that
  \<open>copy_asset\<close> binds it to.
\<close>

record asset =
  asset_id :: string
  originalPath :: string
  originalFileName :: string
  fileCreatedAt :: string
  fileSizeInByte :: "int option"

text \<open>
  The dictionaries appended to \<open>all_dvds\<close> in \<open>main\<close>, with keys
  \<open>num\<close>, \<open>assets\<close>, \<open>size\<close>, \<open>start\<close> and \<open>end\<close>.
\<close>

record chunk =
  dvd_num :: int
  dvd_assets :: "asset list"
  dvd_total :: int
  dvd_start :: string
  dvd_end :: string

text \<open>\<open>asset['fileSizeInByte'] or 0\<close>: a null size and a zero size both give 0.\<close>

definition size_or_0 :: "asset \<Rightarrow> int" where
  "size_or_0 a = (case fileSizeInByte a of None \<Rightarrow> 0 | Some n \<Rightarrow> (if n = 0 then 0 else n))"

text \<open>\<open>s.split('T')[0]\<close>: the text before the first \<open>T\<close>, all of it when there is none.\<close>

definition date_of :: "string \<Rightarrow> string" where
  "date_of s = takeWhile (\<lambda>c. c \<noteq> CHR ''T'') s"

text \<open>
  The dictionary built when a chunk is closed. Both call sites are guarded by
  \<open>current_dvd_assets\<close> being non-empty, so the reads of its first and last element succeed.
\<close>

definition seal :: "int \<Rightarrow> asset list \<Rightarrow> int \<Rightarrow> chunk" where
  "seal n cur sz =
     \<lparr> dvd_num = n, dvd_assets = cur, dvd_total = sz,
       dvd_start = date_of (fileCreatedAt (hd cur)),
       dvd_end = date_of (fileCreatedAt (last cur)) \<rparr>"

text \<open>
  The loop \<open>for asset in assets\<close> of \<open>main\<close>, over the four variables
  \<open>all_dvds\<close>, \<open>current_dvd_assets\<close>, \<open>dvd_size\<close> and \<open>dvd_num\<close>.
\<close>

type_synonym pack_state = "chunk list \<times> asset list \<times> int \<times> int"

definition pack_step :: "int \<Rightarrow> pack_state \<Rightarrow> asset \<Rightarrow> pack_state" where
  "pack_step cap st a =
     (case st of (all_dvds, cur, dvd_size, n) \<Rightarrow>
        let sz = size_or_0 a;
            (all_dvds', cur', dvd_size', n') =
               (if dvd_size + sz > cap \<and> cur \<noteq> []
                then (all_dvds @ [seal n cur dvd_size], [], 0, n + 1)
                else (all_dvds, cur, dvd_size, n))
        in (all_dvds', cur' @ [a], dvd_size' + sz, n'))"

fun pack_loop :: "int \<Rightarrow> pack_state \<Rightarrow> asset list \<Rightarrow> pack_state" where
  "pack_loop cap st [] = st"
| "pack_loop cap st (a # as) = pack_loop cap (pack_step cap st a) as"

text \<open>The loop from its initial variables, followed by the closing of the last chunk.\<close>

definition organize :: "int \<Rightarrow> asset list \<Rightarrow> chunk list" where
  "organize cap xs =
     (case pack_loop cap ([], [], 0, 1) xs of (all_dvds, cur, dvd_size, n) \<Rightarrow>
        if cur \<noteq> [] then all_dvds @ [seal n cur dvd_size] else all_dvds)"

section \<open>Strings and paths\<close>

text \<open>
  A Python string is modelled by the \<open>string\<close> of its UTF-8 bytes: concatenation, prefixes,
  suffixes and the search for the ASCII characters \<open>/\<close> and \<open>.\<close> are the same on the bytes
  as on the code points.

  \<open>lower\<close> is \<open>str.lower\<close> on ASCII text: it maps \<open>A\<close>..\<open>Z\<close> to \<open>a\<close>..\<open>z\<close> and leaves every
  other byte as it is. On other text \<open>str.lower\<close> follows Unicode and is not this function;
  where a statement is about lowering in general, the lowering function is a parameter.
\<close>

definition lower_char :: "char \<Rightarrow> char" where
  "lower_char c =
     (case map_of (zip ''ABCDEFGHIJKLMNOPQRSTUVWXYZ'' ''abcdefghijklmnopqrstuvwxyz'') c of
        Some l \<Rightarrow> l
      | None \<Rightarrow> c)"

definition lower :: "string \<Rightarrow> string" where
  "lower s = map lower_char s"

definition startswith :: "string \<Rightarrow> string \<Rightarrow> bool" where
  "startswith s p = prefix p s"

definition endswith :: "string \<Rightarrow> string \<Rightarrow> bool" where
  "endswith s x = suffix x s"

text \<open>\<open>s.replace(old, new, 1)\<close>: the leftmost occurrence of \<open>old\<close> is replaced.\<close>

fun replace1 :: "string \<Rightarrow> string \<Rightarrow> string \<Rightarrow> string" where
  "replace1 old new [] = (if old = [] then new else [])"
| "replace1 old new (c # cs) =
     (if prefix old (c # cs) then new @ drop (length old) (c # cs)
      else c # replace1 old new cs)"

text \<open>\<open>p.rfind(c)\<close>: the index of the last occurrence of \<open>c\<close>, or \<open>-1\<close>.\<close>

definition rfind :: "string \<Rightarrow> char \<Rightarrow> int" where
  "rfind p c =
     (if c \<in> set p
      then int (length p) - 1 - int (length (takeWhile (\<lambda>x. x \<noteq> c) (rev p)))
      else - 1)"

text \<open>
  \<open>os.path.splitext\<close> (\<open>genericpath._splitext\<close> with separator \<open>/\<close>): the
  extension starts at the last dot that comes after the last separator, unless the file
  name before that dot consists of dots only.
\<close>

definition splitext :: "string \<Rightarrow> string \<times> string" where
  "splitext p =
     (let sepIndex = rfind p (CHR ''/'');
          dotIndex = rfind p (CHR ''.'')
      in if dotIndex > sepIndex \<and>
            list_ex (\<lambda>c. c \<noteq> CHR ''.'') (drop (nat (sepIndex + 1)) (take (nat dotIndex) p))
         then (take (nat dotIndex) p, drop (nat dotIndex) p)
         else (p, []))"

text \<open>\<open>os.path.basename\<close>: what follows the last separator.\<close>

definition basename :: "string \<Rightarrow> string" where
  "basename p = drop (nat (rfind p (CHR ''/'') + 1)) p"

text \<open>\<open>os.path.join\<close> of two components: an absolute second component replaces the first.\<close>

definition join :: "string \<Rightarrow> string \<Rightarrow> string" where
  "join a b =
     (if startswith b ''/'' then b
      else if a = [] \<or> endswith a ''/'' then a @ b
      else a @ ''/'' @ b)"

text \<open>\<open>str\<close> of an integer, in decimal.\<close>

function digits :: "nat \<Rightarrow> string" where
  "digits n =
     (if n < 10 then [''0123456789'' ! n] else digits (n div 10) @ [''0123456789'' ! (n mod 10)])"
  by pat_completeness auto
termination
  by (relation "measure (\<lambda>n. n)") auto

declare digits.simps [simp del]

definition str_int :: "int \<Rightarrow> string" where
  "str_int i = (if i < 0 then CHR ''-'' # digits (nat (- i)) else digits (nat i))"

section \<open>The file system\<close>

text \<open>
  The decoded values of the \<open>json\<close> module: \<open>None\<close>, booleans, integers, strings, lists and
  dictionaries with string keys (a list of pairs whose keys are distinct). Floating point
  numbers are not modelled.
\<close>

datatype json =
    JNull
  | JBool bool
  | JInt int
  | JStr string
  | JList "json list"
  | JObj "(string \<times> json) list"

text \<open>
  What a regular file holds: a document that \<open>json.load\<close> decodes to the given value, as
  \<open>json.dump\<close> of that value writes it, or bytes that \<open>json.load\<close> rejects.
\<close>

datatype content = Json json | Opaque string

datatype node = Directory | File content

text \<open>
  A file system maps a path, as the program spells it, to what is there: two spellings of
  one file are two keys, and nothing resolves \<open>.\<close>, \<open>..\<close> or a symbolic link. A statement that
  depends on which file a path names carries conditions on the spelling. Hard links are
  modelled by their content; a regular file can be read and written, and creating an entry
  does not ask for its parent directory.
\<close>

type_synonym fs = "string \<Rightarrow> node option"

datatype exn =
    FileExistsError
  | FileNotFoundError
  | IsADirectoryError
  | NotADirectoryError
  | PermissionError
  | SameFileError
  | ValueError
  | CalledProcessError

definition exists :: "fs \<Rightarrow> string \<Rightarrow> bool" where
  "exists fs p = (fs p \<noteq> None)"

text \<open>\<open>os.makedirs(p, exist_ok=True)\<close>\<close>

definition makedirs :: "string \<Rightarrow> fs \<Rightarrow> exn + fs" where
  "makedirs p fs =
     (case fs p of
        None \<Rightarrow> Inr (fs(p \<mapsto> Directory))
      | Some Directory \<Rightarrow> Inr fs
      | Some (File c) \<Rightarrow> Inl FileExistsError)"

text \<open>\<open>os.link(src, dst)\<close>\<close>

definition os_link :: "string \<Rightarrow> string \<Rightarrow> fs \<Rightarrow> exn + fs" where
  "os_link src dst fs =
     (case fs src of
        None \<Rightarrow> Inl FileNotFoundError
      | Some Directory \<Rightarrow> Inl PermissionError
      | Some (File c) \<Rightarrow>
          (if exists fs dst then Inl FileExistsError else Inr (fs(dst \<mapsto> File c))))"

text \<open>
  \<open>shutil.copy2(src, dst)\<close>: a destination that is a directory stands for the entry of the
  source's base name inside it; an existing regular file is overwritten.
\<close>

definition copy2 :: "string \<Rightarrow> string \<Rightarrow> fs \<Rightarrow> exn + fs" where
  "copy2 src dst fs =
     (let dst' = (if fs dst = Some Directory then join dst (basename src) else dst)
      in if src = dst' \<and> exists fs src then Inl SameFileError
         else case fs src of
                None \<Rightarrow> Inl FileNotFoundError
              | Some Directory \<Rightarrow> Inl IsADirectoryError
              | Some (File c) \<Rightarrow>
                  (if fs dst' = Some Directory then Inl IsADirectoryError
                   else Inr (fs(dst' \<mapsto> File c))))"

text \<open>\<open>shutil.rmtree(d)\<close>: the directory and everything below it.\<close>

definition rmtree :: "string \<Rightarrow> fs \<Rightarrow> exn + fs" where
  "rmtree d fs =
     (case fs d of
        None \<Rightarrow> Inl FileNotFoundError
      | Some (File c) \<Rightarrow> Inl NotADirectoryError
      | Some Directory \<Rightarrow>
          Inr (\<lambda>p. if p = d \<or> prefix (d @ ''/'') p then None else fs p))"

section \<open>The progress tracker\<close>

text \<open>
  The fields of a \<open>BackupState\<close> object. \<open>load\<close> stores whatever the decoded document
  holds under its three keys, so the fields are JSON values. The lock serialises the bodies
  of \<open>save\<close> and \<open>update\<close>; the model runs one method at a time.
\<close>

record BackupState =
  state_file :: string
  last_asset_id :: json
  current_dvd :: json
  current_dvd_size :: json

text \<open>\<open>d.get(k, default)\<close>\<close>

definition dict_get :: "(string \<times> json) list \<Rightarrow> string \<Rightarrow> json \<Rightarrow> json" where
  "dict_get kvs k dflt = (case map_of kvs k of None \<Rightarrow> dflt | Some v \<Rightarrow> v)"

text \<open>
  \<open>BackupState.load\<close>. The second component tells whether the warning was printed, which
  happens when the \<open>try\<close> block raises: the path cannot be opened as a file, its content
  is not JSON, or the document is not a dictionary and has no \<open>get\<close>.
\<close>

definition load :: "BackupState \<Rightarrow> fs \<Rightarrow> BackupState \<times> bool" where
  "load st fs =
     (case fs (state_file st) of
        None \<Rightarrow> (st, False)
      | Some Directory \<Rightarrow> (st, True)
      | Some (File (Opaque s)) \<Rightarrow> (st, True)
      | Some (File (Json (JObj kvs))) \<Rightarrow>
          (st\<lparr> last_asset_id := dict_get kvs ''last_asset_id'' JNull,
               current_dvd := dict_get kvs ''current_dvd'' (JInt 1),
               current_dvd_size := dict_get kvs ''current_dvd_size'' (JInt 0) \<rparr>, False)
      | Some (File (Json j)) \<Rightarrow> (st, True))"

text \<open>\<open>BackupState.__init__\<close>: the default fields, then \<open>load\<close>.\<close>

definition BackupState_init :: "string \<Rightarrow> fs \<Rightarrow> BackupState \<times> bool" where
  "BackupState_init path fs =
     load \<lparr> state_file = path, last_asset_id = JNull,
            current_dvd = JInt 1, current_dvd_size = JInt 0 \<rparr> fs"

text \<open>The dictionary that \<open>save\<close> hands to \<open>json.dump\<close>.\<close>

definition state_doc :: "BackupState \<Rightarrow> json" where
  "state_doc st =
     JObj [(''last_asset_id'', last_asset_id st),
           (''current_dvd'', current_dvd st),
           (''current_dvd_size'', current_dvd_size st)]"

text \<open>\<open>BackupState.save\<close>: opening a directory for writing raises.\<close>

definition save :: "BackupState \<Rightarrow> fs \<Rightarrow> exn + fs" where
  "save st fs =
     (case fs (state_file st) of
        Some Directory \<Rightarrow> Inl IsADirectoryError
      | _ \<Rightarrow> Inr (fs(state_file st \<mapsto> File (Json (state_doc st)))))"

text \<open>
  \<open>BackupState.update\<close>: three assignments; the parameter \<open>size\<close> is not used. The result is
  the object and the file system after the call.
\<close>

definition update ::
  "string \<Rightarrow> int \<Rightarrow> int \<Rightarrow> int \<Rightarrow> BackupState \<Rightarrow> fs \<Rightarrow> BackupState \<times> fs" where
  "update aid sz dvd_n dvd_size st fs =
     (st\<lparr> last_asset_id := JStr aid, current_dvd := JInt dvd_n,
          current_dvd_size := JInt dvd_size \<rparr>, fs)"

section \<open>Copying one asset\<close>

definition CONTAINER_UPLOAD_PATH :: string where
  "CONTAINER_UPLOAD_PATH = ''/usr/src/app/upload''"

definition HOST_UPLOAD_PATH :: string where
  "HOST_UPLOAD_PATH = ''/mnt/backup/immich-app/library''"

text \<open>The path computations of \<open>copy_asset\<close>, in the order of the source.\<close>

definition host_path_of :: "asset \<Rightarrow> string option" where
  "host_path_of a =
     (if startswith (originalPath a) CONTAINER_UPLOAD_PATH
      then Some (replace1 CONTAINER_UPLOAD_PATH HOST_UPLOAD_PATH (originalPath a))
      else None)"

text \<open>
  The target file name of line 109, with \<open>str.lower\<close> as a parameter; and the same with
  the ASCII lowering, as the model of the pipeline uses it.
\<close>

definition target_filename_with :: "(string \<Rightarrow> string) \<Rightarrow> string \<Rightarrow> string \<Rightarrow> string" where
  "target_filename_with str_lower original_filename host_path =
     (let ext = snd (splitext host_path)
      in if \<not> endswith (str_lower original_filename) (str_lower ext)
         then original_filename @ ext else original_filename)"

definition target_filename_of :: "string \<Rightarrow> string \<Rightarrow> string" where
  "target_filename_of original_filename host_path =
     target_filename_with lower original_filename host_path"

definition target_path_of :: "asset \<Rightarrow> string \<Rightarrow> string \<Rightarrow> fs \<Rightarrow> string" where
  "target_path_of a dvd_dir host_path fs =
     (let ext = snd (splitext host_path);
          target_filename = target_filename_of (originalFileName a) host_path;
          target_path = join dvd_dir target_filename
      in if exists fs target_path
         then join dvd_dir (fst (splitext target_filename) @ ''_'' @ asset_id a @ ext)
         else target_path)"

text \<open>
  The \<open>try\<close> block at the end of \<open>copy_asset\<close>: a failed hard link falls back to a copy,
  and a failed copy is caught and reported as \<open>False\<close>.
\<close>

definition place :: "bool \<Rightarrow> string \<Rightarrow> string \<Rightarrow> fs \<Rightarrow> bool \<times> fs" where
  "place use_links host_path target_path fs =
     (if use_links
      then (case os_link host_path target_path fs of
              Inr fs' \<Rightarrow> (True, fs')
            | Inl e \<Rightarrow>
                (case copy2 host_path target_path fs of
                   Inr fs' \<Rightarrow> (True, fs')
                 | Inl e' \<Rightarrow> (False, fs)))
      else (case copy2 host_path target_path fs of
              Inr fs' \<Rightarrow> (True, fs')
            | Inl e \<Rightarrow> (False, fs)))"

definition copy_asset :: "asset \<Rightarrow> string \<Rightarrow> bool \<Rightarrow> bool \<Rightarrow> fs \<Rightarrow> bool \<times> fs" where
  "copy_asset a dvd_dir dry_run use_links fs =
     (case host_path_of a of
        None \<Rightarrow> (False, fs)
      | Some host_path \<Rightarrow>
          if \<not> exists fs host_path then (False, fs)
          else let target_path = target_path_of a dvd_dir host_path fs
               in if dry_run then (True, fs)
                  else place use_links host_path target_path fs)"

section \<open>The worker pool\<close>

text \<open>
  The calls of \<open>copy_asset\<close> that \<open>main\<close> submits for one chunk run on several threads. A call
  looks at the file system first (both \<open>os.path.exists\<close> tests) and writes later, and other
  calls can run in between: a task is pending, or has chosen its target path, or is done.
\<close>

datatype task = Pending asset | Chosen asset string string | Done asset bool

definition task_step :: "string \<Rightarrow> bool \<Rightarrow> bool \<Rightarrow> task \<Rightarrow> fs \<Rightarrow> task \<times> fs" where
  "task_step dvd_dir dry_run use_links t fs =
     (case t of
        Pending a \<Rightarrow>
          (case host_path_of a of
             None \<Rightarrow> (Done a False, fs)
           | Some host_path \<Rightarrow>
               if \<not> exists fs host_path then (Done a False, fs)
               else let target_path = target_path_of a dvd_dir host_path fs
                    in if dry_run then (Done a True, fs)
                       else (Chosen a host_path target_path, fs))
      | Chosen a host_path target_path \<Rightarrow>
          (case place use_links host_path target_path fs of (ok, fs') \<Rightarrow> (Done a ok, fs'))
      | Done a ok \<Rightarrow> (Done a ok, fs))"

text \<open>
  A schedule names, step by step, the task that moves next. When the schedule is used up,
  the tasks still open are completed one after the other: leaving the \<open>with\<close> block waits
  for every future.
\<close>

fun run_schedule ::
  "string \<Rightarrow> bool \<Rightarrow> bool \<Rightarrow> nat list \<Rightarrow> task list \<Rightarrow> fs \<Rightarrow> task list \<times> fs" where
  "run_schedule dvd_dir dry_run use_links [] ts fs = (ts, fs)"
| "run_schedule dvd_dir dry_run use_links (i # is) ts fs =
     (if i < length ts
      then (case task_step dvd_dir dry_run use_links (ts ! i) fs of
              (t', fs') \<Rightarrow> run_schedule dvd_dir dry_run use_links is (ts[i := t']) fs')
      else run_schedule dvd_dir dry_run use_links is ts fs)"

definition finish_task :: "string \<Rightarrow> bool \<Rightarrow> bool \<Rightarrow> task \<Rightarrow> fs \<Rightarrow> task \<times> fs" where
  "finish_task dvd_dir dry_run use_links t fs =
     (case task_step dvd_dir dry_run use_links t fs of
        (t', fs') \<Rightarrow> task_step dvd_dir dry_run use_links t' fs')"

fun drain :: "string \<Rightarrow> bool \<Rightarrow> bool \<Rightarrow> task list \<Rightarrow> fs \<Rightarrow> task list \<times> fs" where
  "drain dvd_dir dry_run use_links [] fs = ([], fs)"
| "drain dvd_dir dry_run use_links (t # ts) fs =
     (case finish_task dvd_dir dry_run use_links t fs of
        (t', fs') \<Rightarrow>
          (case drain dvd_dir dry_run use_links ts fs' of
             (ts', fs'') \<Rightarrow> (t' # ts', fs'')))"

definition materialize ::
  "string \<Rightarrow> bool \<Rightarrow> bool \<Rightarrow> nat list \<Rightarrow> asset list \<Rightarrow> fs \<Rightarrow> task list \<times> fs" where
  "materialize dvd_dir dry_run use_links sched xs fs =
     (case run_schedule dvd_dir dry_run use_links sched (map Pending xs) fs of
        (ts, fs') \<Rightarrow> drain dvd_dir dry_run use_links ts fs')"

section \<open>Building the image\<close>

text \<open>
  The machine the program runs on: which tools \<open>shutil.which\<close> finds, what a command does
  to the file system and whether \<open>run_command\<close> returns (\<open>True\<close>) or raises, and the order in
  which the pool's threads move.
\<close>

record host =
  which :: "string \<Rightarrow> bool"
  run_command :: "string list \<Rightarrow> fs \<Rightarrow> bool \<times> fs"
  schedule :: "int \<Rightarrow> nat list"

definition tools :: "string \<Rightarrow> string \<Rightarrow> string list list" where
  "tools source_dir iso_path =
     [[''xorriso'', ''-as'', ''mkisofs'', ''-o'', iso_path, ''-J'', ''-R'', ''-V'',
       basename source_dir, source_dir],
      [''genisoimage'', ''-o'', iso_path, ''-J'', ''-R'', ''-V'', basename source_dir, source_dir],
      [''mkisofs'', ''-o'', iso_path, ''-J'', ''-R'', ''-V'', basename source_dir, source_dir]]"

text \<open>
  The loop \<open>for cmd in tools\<close> of \<open>create_iso\<close>. Besides the result and the file system it
  returns the commands it tried, each with its outcome.
\<close>

fun try_tools ::
  "host \<Rightarrow> string list list \<Rightarrow> fs \<Rightarrow> bool \<times> (string list \<times> bool) list \<times> fs" where
  "try_tools h [] fs = (False, [], fs)"
| "try_tools h (cmd # rest) fs =
     (if which h (hd cmd)
      then (case run_command h cmd fs of
              (True, fs') \<Rightarrow> (True, [(cmd, True)], fs')
            | (False, fs') \<Rightarrow>
                (case try_tools h rest fs' of
                   (ok, tried, fs'') \<Rightarrow> (ok, (cmd, False) # tried, fs'')))
      else try_tools h rest fs)"

definition create_iso ::
  "host \<Rightarrow> string \<Rightarrow> string \<Rightarrow> fs \<Rightarrow> bool \<times> (string list \<times> bool) list \<times> fs" where
  "create_iso h source_dir iso_path fs = try_tools h (tools source_dir iso_path) fs"

section \<open>The main loop\<close>

record args =
  arg_backup_dir :: string
  arg_state_file :: string
  arg_capacity :: int
  arg_dry_run :: bool
  arg_use_links :: bool
  arg_threads :: int

text \<open>
  The body of \<open>for dvd in to_process\<close>, in two parts: the staging directory with the pool
  of \<open>copy_asset\<close> calls (a pool of no workers raises), then the image and the removal of
  the staging directory. An exception that nothing catches ends the run: the result holds
  it, with the file system at that moment.
\<close>

definition dvd_dir_of :: "args \<Rightarrow> chunk \<Rightarrow> string" where
  "dvd_dir_of ar d = join (arg_backup_dir ar) (''DVD_'' @ str_int (dvd_num d))"

definition iso_path_of :: "args \<Rightarrow> chunk \<Rightarrow> string" where
  "iso_path_of ar d =
     join (arg_backup_dir ar)
       (''immich_backup_dvd_'' @ str_int (dvd_num d) @ ''_'' @ dvd_start d @ ''_'' @ dvd_end d
        @ ''.iso'')"

definition stage_dvd :: "args \<Rightarrow> host \<Rightarrow> chunk \<Rightarrow> fs \<Rightarrow> exn option \<times> fs" where
  "stage_dvd ar h d fs =
     (case (if \<not> arg_dry_run ar then makedirs (dvd_dir_of ar d) fs else Inr fs) of
        Inl e \<Rightarrow> (Some e, fs)
      | Inr fs1 \<Rightarrow>
          if arg_threads ar \<le> 0 then (Some ValueError, fs1)
          else case materialize (dvd_dir_of ar d) (arg_dry_run ar) (arg_use_links ar)
                      (schedule h (dvd_num d)) (dvd_assets d) fs1 of
                 (ts, fs2) \<Rightarrow> (None, fs2))"

definition process_dvd :: "args \<Rightarrow> host \<Rightarrow> chunk \<Rightarrow> fs \<Rightarrow> exn option \<times> fs" where
  "process_dvd ar h d fs =
     (case stage_dvd ar h d fs of
        (Some e, fs2) \<Rightarrow> (Some e, fs2)
      | (None, fs2) \<Rightarrow>
          if \<not> arg_dry_run ar
          then (case create_iso h (dvd_dir_of ar d) (iso_path_of ar d) fs2 of
                  (True, tried, fs3) \<Rightarrow>
                    (case rmtree (dvd_dir_of ar d) fs3 of
                       Inl e \<Rightarrow> (Some e, fs3)
                     | Inr fs4 \<Rightarrow> (None, fs4))
                | (False, tried, fs3) \<Rightarrow> (None, fs3))
          else (None, fs2))"

fun process_all :: "args \<Rightarrow> host \<Rightarrow> chunk list \<Rightarrow> fs \<Rightarrow> exn option \<times> fs" where
  "process_all ar h [] fs = (None, fs)"
| "process_all ar h (d # ds) fs =
     (case process_dvd ar h d fs of
        (Some e, fs') \<Rightarrow> (Some e, fs')
      | (None, fs') \<Rightarrow> process_all ar h ds fs')"

text \<open>
  The answer at the prompt, after \<open>strip\<close> and \<open>lower\<close>: \<open>q\<close>, \<open>all\<close>, a text that \<open>int\<close>
  accepts, or anything else.
\<close>

datatype choice = Quit | Everything | Number int | Invalid

definition to_process :: "choice \<Rightarrow> chunk list \<Rightarrow> chunk list" where
  "to_process ch all_dvds =
     (case ch of
        Quit \<Rightarrow> []
      | Everything \<Rightarrow> all_dvds
      | Number k \<Rightarrow>
          (let dvd_idx = k - 1
           in if 0 \<le> dvd_idx \<and> dvd_idx < int (length all_dvds)
              then [all_dvds ! nat dvd_idx] else [])
      | Invalid \<Rightarrow> [])"

text \<open>
  \<open>main\<close>, from the creation of the backup directory on. The query result is given: the
  rows, or nothing when \<open>get_assets_from_db\<close> raises. The result is the uncaught exception
  if there is one, the tracker object if it was created, and the file system at the end.
\<close>

record outcome =
  raised :: "exn option"
  tracker :: "BackupState option"
  disk :: fs

definition main :: "args \<Rightarrow> host \<Rightarrow> asset list option \<Rightarrow> choice \<Rightarrow> fs \<Rightarrow> outcome" where
  "main ar h db ch fs =
     (case makedirs (arg_backup_dir ar) fs of
        Inl e \<Rightarrow> \<lparr> raised = Some e, tracker = None, disk = fs \<rparr>
      | Inr fs1 \<Rightarrow>
          (case BackupState_init (arg_state_file ar) fs1 of
             (state, warned) \<Rightarrow>
               (case db of
                  None \<Rightarrow> \<lparr> raised = Some CalledProcessError, tracker = Some state, disk = fs1 \<rparr>
                | Some xs \<Rightarrow>
                    if xs = [] then \<lparr> raised = None, tracker = Some state, disk = fs1 \<rparr>
                    else (case process_all ar h
                                 (to_process ch (organize (arg_capacity ar) xs)) fs1 of
                            (e, fs2) \<Rightarrow> \<lparr> raised = e, tracker = Some state, disk = fs2 \<rparr>))))"

section \<open>Invariants of the packing loop\<close>

text \<open>The records seen so far, in order: those of the closed chunks, then the open one.\<close>

definition members :: "pack_state \<Rightarrow> asset list" where
  "members st = (case st of (all_dvds, cur, dvd_size, n) \<Rightarrow> concat (map dvd_assets all_dvds) @ cur)"

definition closed_nonempty :: "pack_state \<Rightarrow> bool" where
  "closed_nonempty st =
     (case st of (all_dvds, cur, dvd_size, n) \<Rightarrow> [] \<notin> set (map dvd_assets all_dvds))"

text \<open>
  A chunk whose recorded size is the sum of its members' sizes and exceeds the capacity only
  if it has one member; and the same for the loop variables, the open chunk included.
\<close>

definition within :: "int \<Rightarrow> chunk \<Rightarrow> bool" where
  "within cap c =
     (dvd_total c = sum_list (map size_or_0 (dvd_assets c))
      \<and> (dvd_total c \<le> cap \<or> length (dvd_assets c) = 1))"

definition pack_inv :: "int \<Rightarrow> pack_state \<Rightarrow> bool" where
  "pack_inv cap st =
     (case st of (all_dvds, cur, dvd_size, n) \<Rightarrow>
        list_all (within cap) all_dvds
        \<and> dvd_size = sum_list (map size_or_0 cur)
        \<and> (dvd_size \<le> cap \<or> length cur \<le> 1))"

section \<open>Notions of the specification\<close>



text \<open>The default state: chunk 1, size 0, no last asset.\<close>

definition default_state :: "string \<Rightarrow> BackupState" where
  "default_state path =
     \<lparr> state_file = path, last_asset_id = JNull, current_dvd = JInt 1, current_dvd_size = JInt 0 \<rparr>"

text \<open>
  Reading or decoding the state file fails: the path is there and is not a regular file
  holding a JSON dictionary, so the \<open>try\<close> block of \<open>load\<close> raises.
\<close>

definition load_fails :: "fs \<Rightarrow> string \<Rightarrow> bool" where
  "load_fails fs path =
     (case fs path of
        None \<Rightarrow> False
      | Some Directory \<Rightarrow> True
      | Some (File (Opaque s)) \<Rightarrow> True
      | Some (File (Json (JObj kvs))) \<Rightarrow> False
      | Some (File (Json j)) \<Rightarrow> True)"

text \<open>The candidate commands whose tool is found on the machine.\<close>

definition available :: "host \<Rightarrow> string list list \<Rightarrow> string list list" where
  "available h cmds = filter (\<lambda>cmd. which h (hd cmd)) cmds"

text \<open>Running the given commands one after the other: their outcomes and the file system left.\<close>

fun replay :: "host \<Rightarrow> string list list \<Rightarrow> fs \<Rightarrow> bool list \<times> fs" where
  "replay h [] fs = ([], fs)"
| "replay h (cmd # cmds) fs =
     (case run_command h cmd fs of
        (r, fs') \<Rightarrow> (case replay h cmds fs' of (rs, fs'') \<Rightarrow> (r # rs, fs'')))"

section \<open>Path components\<close>

text \<open>\<open>p.split(c)\<close>: the pieces of the text between the occurrences of the character.\<close>

fun split_on :: "char \<Rightarrow> string \<Rightarrow> string list" where
  "split_on c [] = [[]]"
| "split_on c (x # xs) =
     (if x = c then [] # split_on c xs
      else (case split_on c xs of [] \<Rightarrow> [[x]] | w # ws \<Rightarrow> (x # w) # ws))"

text \<open>
  The components of a path: the pieces between separators, without the empty ones and
  without \<open>.\<close>, which name no step. Two spellings that differ only in those have the same
  components.
\<close>

definition comps :: "string \<Rightarrow> string list" where
  "comps p = filter (\<lambda>c. c \<noteq> [] \<and> c \<noteq> ''.'') (split_on (CHR ''/'') p)"

text \<open>The second path is the first or leads through it: its components begin with those of the first.\<close>

definition inside :: "string \<Rightarrow> string \<Rightarrow> bool" where
  "inside d p = prefix (comps d) (comps p)"

text \<open>An absolute path; and a path with a step \<open>..\<close> to the parent directory.\<close>

definition is_abs :: "string \<Rightarrow> bool" where
  "is_abs p = startswith p ''/''"

definition climbs :: "string \<Rightarrow> bool" where
  "climbs p = (''..'' \<in> set (split_on (CHR ''/'') p))"

section \<open>Invariants of the pool\<close>


text \<open>A task whose write, if any, goes to the directory or below it.\<close>

definition task_below :: "string \<Rightarrow> task \<Rightarrow> bool" where
  "task_below d t =
     (case t of
        Pending a \<Rightarrow> \<not> startswith (originalFileName a) ''/''
      | Chosen a host_path target_path \<Rightarrow> inside d target_path
      | Done a ok \<Rightarrow> True)"

section \<open>Example data\<close>

text \<open>An asset whose file is \<open>i.jpg\<close> in the container's upload directory.\<close>

definition example_asset :: "string \<Rightarrow> string \<Rightarrow> int option \<Rightarrow> asset" where
  "example_asset i name sz =
     \<lparr> asset_id = i, originalPath = ''/usr/src/app/upload/'' @ i @ ''.jpg'',
       originalFileName = name, fileCreatedAt = ''2021-03-04T05:06:07+00:00'',
       fileSizeInByte = sz \<rparr>"

text \<open>A library of three files on the host, and an empty staging directory.\<close>

definition example_library :: fs where
  "example_library =
     [''/mnt/backup/immich-app/library/u1.jpg'' \<mapsto> File (Opaque ''one''),
      ''/mnt/backup/immich-app/library/u2.jpg'' \<mapsto> File (Opaque ''two''),
      ''/mnt/backup/immich-app/library/u3.jpg'' \<mapsto> File (Opaque ''three''),
      ''backup'' \<mapsto> Directory,
      ''backup/DVD_1'' \<mapsto> Directory]"

definition example_state :: BackupState where
  "example_state =
     \<lparr> state_file = ''./immich_backup_state.json'', last_asset_id = JStr ''u7'',
       current_dvd = JInt 3, current_dvd_size = JInt 4096 \<rparr>"

definition example_args :: args where
  "example_args =
     \<lparr> arg_backup_dir = ''backup'', arg_state_file = ''./immich_backup_state.json'',
       arg_capacity = 5000, arg_dry_run = False, arg_use_links = False, arg_threads = 4 \<rparr>"

definition example_chunk :: chunk where
  "example_chunk =
     \<lparr> dvd_num = 1, dvd_assets = [example_asset ''u2'' ''IMG.jpg'' (Some 2048)],
       dvd_total = 2048, dvd_start = ''2021-03-04'', dvd_end = ''2021-03-04'' \<rparr>"

text \<open>A machine without xorriso on which the other two tools fail and write nothing.\<close>

definition failing_host :: host where
  "failing_host =
     \<lparr> which = (\<lambda>t. t \<noteq> ''xorriso''), run_command = (\<lambda>cmd f. (False, f)),
       schedule = (\<lambda>n. []) \<rparr>"

text \<open>A machine with all three tools, on which xorriso fails and genisoimage succeeds.\<close>

definition fallback_host :: host where
  "fallback_host =
     \<lparr> which = (\<lambda>t. True), run_command = (\<lambda>cmd f. (hd cmd = ''genisoimage'', f)),
       schedule = (\<lambda>n. []) \<rparr>"

text \<open>A machine on which xorriso is found and succeeds, writing no path of the model.\<close>

definition working_host :: host where
  "working_host =
     \<lparr> which = (\<lambda>t. True), run_command = (\<lambda>cmd f. (True, f)), schedule = (\<lambda>n. []) \<rparr>"

text \<open>
  The library with a state file beside the backup directory, and with one inside the
  staging directory of the first chunk.
\<close>

definition example_disk :: fs where
  "example_disk =
     example_library(''./immich_backup_state.json'' \<mapsto> File (Json (state_doc example_state)),
                     ''backup/DVD_1/state.json'' \<mapsto> File (Json (state_doc example_state)))"





section \<open>The chunks partition the input\<close>

lemma members_pack_step: "members (pack_step cap st a) = members st @ [a]"
  by (cases st) (simp add: members_def pack_step_def seal_def Let_def)

lemma members_pack_loop: "members (pack_loop cap st as) = members st @ as"
  by (induction as arbitrary: st) (simp_all add: members_pack_step)

lemma closed_nonempty_pack_step:
  "closed_nonempty st \<Longrightarrow> closed_nonempty (pack_step cap st a)"
  by (cases st) (auto simp: closed_nonempty_def pack_step_def seal_def Let_def)

lemma closed_nonempty_pack_loop:
  "closed_nonempty st \<Longrightarrow> closed_nonempty (pack_loop cap st as)"
  by (induction as arbitrary: st) (simp_all add: closed_nonempty_pack_step)

lemma concat_organize: "concat (map dvd_assets (organize cap xs)) = xs"
proof -
  obtain all_dvds cur dvd_size n
    where run: "pack_loop cap ([], [], 0, 1) xs = (all_dvds, cur, dvd_size, n)"
    by (cases "pack_loop cap ([], [], 0, 1) xs") auto
  have "members (all_dvds, cur, dvd_size, n) = members ([], [], 0, 1) @ xs"
    using members_pack_loop [of cap "([], [], 0, 1)" xs] run by simp
  then have "concat (map dvd_assets all_dvds) @ cur = xs"
    by (simp add: members_def)
  then show ?thesis
    by (auto simp: organize_def run seal_def)
qed

lemma nonempty_organize: "[] \<notin> set (map dvd_assets (organize cap xs))"
proof -
  obtain all_dvds cur dvd_size n
    where run: "pack_loop cap ([], [], 0, 1) xs = (all_dvds, cur, dvd_size, n)"
    by (cases "pack_loop cap ([], [], 0, 1) xs") auto
  have "closed_nonempty ([], [], 0, 1)"
    by (simp add: closed_nonempty_def)
  then have "closed_nonempty (all_dvds, cur, dvd_size, n)"
    using closed_nonempty_pack_loop [of "([], [], 0, 1)" cap xs] run by simp
  then show ?thesis
    by (auto simp: organize_def run seal_def closed_nonempty_def)
qed

lemma organize_Nil: "organize cap [] = []"
  by (simp add: organize_def)

lemma concat_unique_index:
  assumes d: "distinct (concat xss)" and ne: "[] \<notin> set xss" and a: "a \<in> set (concat xss)"
  shows "\<exists>!j. j < length xss \<and> a \<in> set (xss ! j)"
proof -
  from a obtain ys where ys: "ys \<in> set xss" "a \<in> set ys" by auto
  then obtain j where j: "j < length xss" "xss ! j = ys" by (auto simp: in_set_conv_nth)
  have dx: "distinct xss"
    using d ne by (simp add: distinct_concat_iff)
  have disj: "\<And>us vs. us \<in> set xss \<Longrightarrow> vs \<in> set xss \<Longrightarrow> us \<noteq> vs \<Longrightarrow> set us \<inter> set vs = {}"
    using d by (auto simp: distinct_concat_iff)
  show ?thesis
  proof (rule ex1I [of _ j])
    show "j < length xss \<and> a \<in> set (xss ! j)" using j ys by simp
  next
    fix k assume k: "k < length xss \<and> a \<in> set (xss ! k)"
    have "xss ! k = xss ! j"
    proof (rule ccontr)
      assume "xss ! k \<noteq> xss ! j"
      then have "set (xss ! k) \<inter> set (xss ! j) = {}"
        using disj [of "xss ! k" "xss ! j"] k j ys by simp
      then show False using k j ys by auto
    qed
    moreover have "k < length xss" using k by simp
    ultimately show "k = j"
      using nth_eq_iff_index_eq [OF dx, of k j] j by simp
  qed
qed

text \<open>
  C1. The chunks that the packing loop produces split the input: their member lists,
  concatenated, are the input in its order; no chunk is empty; an empty input gives no chunk;
  and when the input holds no record twice, every record is in exactly one chunk. This holds
  for every capacity.
\<close>
theorem organize_partitions_input:
  "concat (map dvd_assets (organize cap xs)) = xs
   \<and> [] \<notin> set (map dvd_assets (organize cap xs))
   \<and> organize cap [] = []
   \<and> (distinct xs \<longrightarrow>
        (\<forall>a \<in> set xs. \<exists>!j. j < length (organize cap xs) \<and> a \<in> set (dvd_assets (organize cap xs ! j))))"
proof -
  let ?cs = "organize cap xs"
  have c: "concat (map dvd_assets ?cs) = xs" by (rule concat_organize)
  have n: "[] \<notin> set (map dvd_assets ?cs)" by (rule nonempty_organize)
  have u: "\<exists>!j. j < length ?cs \<and> a \<in> set (dvd_assets (?cs ! j))" if "distinct xs" "a \<in> set xs" for a
  proof -
    have "\<exists>!j. j < length (map dvd_assets ?cs) \<and> a \<in> set (map dvd_assets ?cs ! j)"
      using concat_unique_index [of "map dvd_assets ?cs" a] c n that by simp
    then show ?thesis by (auto cong: conj_cong)
  qed
  show ?thesis using c n u organize_Nil by blast
qed

theorem organize_partitions_input_witness:
  "distinct [example_asset ''a'' ''x.jpg'' (Some 3000), example_asset ''b'' ''x.jpg'' (Some 3000)]
   \<and> organize 5000 [example_asset ''a'' ''x.jpg'' (Some 3000), example_asset ''b'' ''x.jpg'' (Some 3000)]
       = [seal 1 [example_asset ''a'' ''x.jpg'' (Some 3000)] 3000,
          seal 2 [example_asset ''b'' ''x.jpg'' (Some 3000)] 3000]
   \<and> (\<exists>!j. j < length (organize 5000 [example_asset ''a'' ''x.jpg'' (Some 3000),
                                         example_asset ''b'' ''x.jpg'' (Some 3000)])
          \<and> example_asset ''b'' ''x.jpg'' (Some 3000)
              \<in> set (dvd_assets (organize 5000 [example_asset ''a'' ''x.jpg'' (Some 3000),
                                                example_asset ''b'' ''x.jpg'' (Some 3000)] ! j)))"
proof -
  let ?xs = "[example_asset ''a'' ''x.jpg'' (Some 3000), example_asset ''b'' ''x.jpg'' (Some 3000)]"
  have d: "distinct ?xs" by (simp add: example_asset_def)
  have run: "organize 5000 ?xs = [seal 1 [example_asset ''a'' ''x.jpg'' (Some 3000)] 3000,
          seal 2 [example_asset ''b'' ''x.jpg'' (Some 3000)] 3000]"
    by (simp add: organize_def pack_step_def size_or_0_def example_asset_def Let_def)
  have "\<exists>!j. j < length (organize 5000 ?xs)
          \<and> example_asset ''b'' ''x.jpg'' (Some 3000) \<in> set (dvd_assets (organize 5000 ?xs ! j))"
    using organize_partitions_input [of 5000 ?xs] d by simp
  with d run show ?thesis by blast
qed

section \<open>The capacity bound\<close>

lemma short_nonempty: "cur \<noteq> [] \<Longrightarrow> length cur \<le> Suc 0 \<Longrightarrow> length cur = Suc 0"
  by (cases cur) auto

lemma pack_inv_step: "pack_inv cap st \<Longrightarrow> pack_inv cap (pack_step cap st a)"
  by (cases st)
     (auto simp: pack_inv_def pack_step_def seal_def within_def Let_def dest: short_nonempty)

lemma pack_inv_loop: "pack_inv cap st \<Longrightarrow> pack_inv cap (pack_loop cap st as)"
  by (induction as arbitrary: st) (simp_all add: pack_inv_step)

lemma within_organize: "list_all (within cap) (organize cap xs)"
proof -
  obtain all_dvds cur dvd_size n
    where run: "pack_loop cap ([], [], 0, 1) xs = (all_dvds, cur, dvd_size, n)"
    by (cases "pack_loop cap ([], [], 0, 1) xs") auto
  have "pack_inv cap ([], [], 0, 1)"
    by (simp add: pack_inv_def)
  then have "pack_inv cap (all_dvds, cur, dvd_size, n)"
    using pack_inv_loop [of cap "([], [], 0, 1)" xs] run by simp
  then show ?thesis
    by (cases cur) (auto simp: organize_def run seal_def pack_inv_def within_def)
qed

text \<open>
  C2. In every chunk the recorded size is the sum of its members' sizes, a null size counting
  as zero, and it is at most the capacity unless the chunk has exactly one member; so a
  chunk of two or more members never exceeds the capacity.
\<close>

theorem chunk_within_capacity:
  "\<forall>c \<in> set (organize cap xs).
     dvd_total c = sum_list (map size_or_0 (dvd_assets c))
     \<and> (dvd_total c \<le> cap \<or> length (dvd_assets c) = 1)
     \<and> (2 \<le> length (dvd_assets c) \<longrightarrow> dvd_total c \<le> cap)"
  using within_organize [of cap xs] by (auto simp: list_all_iff within_def)

theorem chunk_within_capacity_witness:
  "seal 1 [example_asset ''a'' ''x.jpg'' (Some 9000)] 9000
     \<in> set (organize 5000 [example_asset ''a'' ''x.jpg'' (Some 9000),
                            example_asset ''b'' ''y.jpg'' None,
                            example_asset ''c'' ''z.jpg'' (Some 4000)])
   \<and> seal 2 [example_asset ''b'' ''y.jpg'' None, example_asset ''c'' ''z.jpg'' (Some 4000)] 4000
     \<in> set (organize 5000 [example_asset ''a'' ''x.jpg'' (Some 9000),
                            example_asset ''b'' ''y.jpg'' None,
                            example_asset ''c'' ''z.jpg'' (Some 4000)])
   \<and> dvd_total (seal 2 [example_asset ''b'' ''y.jpg'' None,
                          example_asset ''c'' ''z.jpg'' (Some 4000)] 4000) \<le> 5000"
proof -
  let ?xs = "[example_asset ''a'' ''x.jpg'' (Some 9000), example_asset ''b'' ''y.jpg'' None,
              example_asset ''c'' ''z.jpg'' (Some 4000)]"
  let ?c1 = "seal 1 [example_asset ''a'' ''x.jpg'' (Some 9000)] 9000"
  let ?c2 = "seal 2 [example_asset ''b'' ''y.jpg'' None, example_asset ''c'' ''z.jpg'' (Some 4000)] 4000"
  have run: "organize 5000 ?xs = [?c1, ?c2]"
    by (simp add: organize_def pack_step_def size_or_0_def example_asset_def Let_def)
  have m2: "?c2 \<in> set (organize 5000 ?xs)" by (simp add: run)
  have "2 \<le> length (dvd_assets ?c2)" by (simp add: seal_def)
  with chunk_within_capacity [of 5000 ?xs] m2 have "dvd_total ?c2 \<le> 5000" by blast
  then show ?thesis by (simp add: run)
qed

section \<open>The target file name\<close>






section \<open>Dry runs and assets that do not resolve\<close>













section \<open>Saving and loading\<close>

lemma state_doc_get:
  "dict_get [(''last_asset_id'', a), (''current_dvd'', b), (''current_dvd_size'', c)] ''last_asset_id'' x = a"
  "dict_get [(''last_asset_id'', a), (''current_dvd'', b), (''current_dvd_size'', c)] ''current_dvd'' y = b"
  "dict_get [(''last_asset_id'', a), (''current_dvd'', b), (''current_dvd_size'', c)] ''current_dvd_size'' z = c"
  by (simp_all add: dict_get_def)

lemma save_writes_doc:
  "save st fs = Inr fs' \<Longrightarrow> fs' (state_file st) = Some (File (Json (state_doc st)))"
  by (auto simp: save_def split: option.splits node.splits)

lemma load_doc:
  "fs (state_file st') = Some (File (Json (state_doc st))) \<Longrightarrow>
   load st' fs = (st'\<lparr> last_asset_id := last_asset_id st, current_dvd := current_dvd st,
                       current_dvd_size := current_dvd_size st \<rparr>, False)"
  by (simp add: load_def state_doc_def state_doc_get)

text \<open>
  C4. When \<open>save\<close> returns, \<open>load\<close> on the file it wrote gives back the saved state without
  a warning: on the same object, and on a new object created for the same path.
\<close>

theorem save_then_load:
  "save st fs = Inr fs' \<longrightarrow>
     load st fs' = (st, False)
     \<and> BackupState_init (state_file st) fs' = (st, False)"
proof
  assume "save st fs = Inr fs'"
  then have w: "fs' (state_file st) = Some (File (Json (state_doc st)))"
    by (rule save_writes_doc)
  have "load st fs' = (st, False)"
    using load_doc [of fs' st st] w by simp
  moreover have "BackupState_init (state_file st) fs' = (st, False)"
    using load_doc [of fs' "default_state (state_file st)" st] w
    by (simp add: BackupState_init_def default_state_def)
  ultimately show "load st fs' = (st, False) \<and> BackupState_init (state_file st) fs' = (st, False)"
    by simp
qed

theorem save_then_load_witness:
  "save example_state Map.empty
     = Inr [''./immich_backup_state.json'' \<mapsto> File (Json (state_doc example_state))]
   \<and> BackupState_init ''./immich_backup_state.json''
        [''./immich_backup_state.json'' \<mapsto> File (Json (state_doc example_state))]
     = (example_state, False)"
proof -
  have s: "save example_state Map.empty
     = Inr [''./immich_backup_state.json'' \<mapsto> File (Json (state_doc example_state))]"
    by (simp add: save_def example_state_def)
  have "state_file example_state = ''./immich_backup_state.json''"
    by (simp add: example_state_def)
  with s save_then_load [of example_state Map.empty] show ?thesis
    by simp
qed

section \<open>Loading never raises\<close>

text \<open>
  C8, amended. \<open>load\<close> has no exceptional result: \<open>os.path.exists\<close> does not raise and the
  handler catches whatever the \<open>try\<close> block raises. A new tracker holds the default state
  both when the file is absent and when reading or decoding it fails; the warning is
  printed in the second case only.
\<close>

theorem load_never_aborts:
  "(fs path = None \<longrightarrow> BackupState_init path fs = (default_state path, False))
   \<and> (load_fails fs path \<longrightarrow> BackupState_init path fs = (default_state path, True))
   \<and> snd (BackupState_init path fs) = load_fails fs path"
  by (auto simp: BackupState_init_def load_def load_fails_def default_state_def
      split: option.splits node.splits content.splits json.splits)

text \<open>With no state file, the new tracker holds the default state and no warning is printed.\<close>

theorem load_absent_file_counterexample:
  "\<not> snd (BackupState_init ''./immich_backup_state.json'' Map.empty)
   \<and> fst (BackupState_init ''./immich_backup_state.json'' Map.empty)
       = default_state ''./immich_backup_state.json''"
  by (simp add: BackupState_init_def load_def default_state_def)

theorem load_never_aborts_witness:
  "load_fails [''./immich_backup_state.json'' \<mapsto> File (Opaque ''{\"last_asset'')]
      ''./immich_backup_state.json''
   \<and> BackupState_init ''./immich_backup_state.json''
        [''./immich_backup_state.json'' \<mapsto> File (Opaque ''{\"last_asset'')]
       = (default_state ''./immich_backup_state.json'', True)
   \<and> BackupState_init ''./immich_backup_state.json'' Map.empty
       = (default_state ''./immich_backup_state.json'', False)"
proof -
  let ?fs = "[''./immich_backup_state.json'' \<mapsto> File (Opaque ''{\"last_asset'')]"
  have f: "load_fails ?fs ''./immich_backup_state.json''"
    by (simp add: load_fails_def)
  have a: "(Map.empty :: fs) ''./immich_backup_state.json'' = None" by simp
  show ?thesis
    using f a load_never_aborts [of ?fs "''./immich_backup_state.json''"]
      load_never_aborts [of Map.empty "''./immich_backup_state.json''"]
    by simp
qed

section \<open>Updating the tracker\<close>

text \<open>
  C3, amended. \<open>update\<close> replaces the three fields of the object and leaves the file system
  as it is; the new state reaches the file when \<open>save\<close> is called afterwards, and a new
  tracker then loads it.
\<close>

theorem update_in_memory_only:
  "fst (update aid sz n dsz st fs)
     = st\<lparr> last_asset_id := JStr aid, current_dvd := JInt n, current_dvd_size := JInt dsz \<rparr>
   \<and> snd (update aid sz n dsz st fs) = fs
   \<and> (save (fst (update aid sz n dsz st fs)) fs = Inr fs' \<longrightarrow>
        BackupState_init (state_file st) fs' = (fst (update aid sz n dsz st fs), False))"
proof -
  let ?st = "fst (update aid sz n dsz st fs)"
  have sf: "state_file ?st = state_file st" by (simp add: update_def)
  have "BackupState_init (state_file st) fs' = (?st, False)" if "save ?st fs = Inr fs'"
  proof -
    have "fs' (state_file ?st) = Some (File (Json (state_doc ?st)))"
      using that by (rule save_writes_doc)
    then show ?thesis
      using load_doc [of fs' "default_state (state_file st)" ?st] sf
      by (simp add: BackupState_init_def default_state_def update_def)
  qed
  then show ?thesis by (simp add: update_def)
qed

text \<open>
  After \<open>update\<close> on a disk without a state file there is still no state file, and a new
  tracker starts from the default state, not from the updated one.
\<close>

theorem update_does_not_persist_counterexample:
  "snd (update ''u8'' 100 3 4196 example_state Map.empty) (state_file example_state) = None
   \<and> fst (BackupState_init (state_file example_state)
            (snd (update ''u8'' 100 3 4196 example_state Map.empty)))
       = default_state ''./immich_backup_state.json''
   \<and> default_state ''./immich_backup_state.json''
       \<noteq> fst (update ''u8'' 100 3 4196 example_state Map.empty)"
  by (simp add: update_def example_state_def BackupState_init_def load_def default_state_def)

theorem update_in_memory_only_witness:
  "save (fst (update ''u8'' 100 3 4196 example_state Map.empty)) Map.empty
     = Inr [''./immich_backup_state.json'' \<mapsto>
              File (Json (state_doc (fst (update ''u8'' 100 3 4196 example_state Map.empty))))]
   \<and> BackupState_init ''./immich_backup_state.json''
        [''./immich_backup_state.json'' \<mapsto>
              File (Json (state_doc (fst (update ''u8'' 100 3 4196 example_state Map.empty))))]
       = (fst (update ''u8'' 100 3 4196 example_state Map.empty), False)"
proof -
  let ?st = "fst (update ''u8'' 100 3 4196 example_state Map.empty)"
  have s: "save ?st Map.empty = Inr [''./immich_backup_state.json'' \<mapsto> File (Json (state_doc ?st))]"
    by (simp add: save_def update_def example_state_def)
  have sf: "state_file example_state = ''./immich_backup_state.json''"
    by (simp add: example_state_def)
  have "save ?st Map.empty = Inr [''./immich_backup_state.json'' \<mapsto> File (Json (state_doc ?st))]
        \<longrightarrow> BackupState_init (state_file example_state)
              [''./immich_backup_state.json'' \<mapsto> File (Json (state_doc ?st))] = (?st, False)"
    using update_in_memory_only [of "''u8''" 100 3 4196 example_state Map.empty
      "[''./immich_backup_state.json'' \<mapsto> File (Json (state_doc ?st))]"]
    by blast
  with s have "BackupState_init (state_file example_state)
              [''./immich_backup_state.json'' \<mapsto> File (Json (state_doc ?st))] = (?st, False)"
    by blast
  then have "BackupState_init ''./immich_backup_state.json''
              [''./immich_backup_state.json'' \<mapsto> File (Json (state_doc ?st))] = (?st, False)"
    by (simp only: sf)
  with s show ?thesis by blast
qed

section \<open>The fallback chain of the image tools\<close>

lemma try_tools_Cons:
  "try_tools h (cmd # rest) fs = (ok, tried, fs') \<Longrightarrow>
     (\<not> which h (hd cmd) \<and> try_tools h rest fs = (ok, tried, fs'))
     \<or> (which h (hd cmd) \<and> ok \<and> tried = [(cmd, True)] \<and> run_command h cmd fs = (True, fs'))
     \<or> (which h (hd cmd) \<and>
          (\<exists>fs1 tried1. run_command h cmd fs = (False, fs1) \<and> tried = (cmd, False) # tried1
             \<and> try_tools h rest fs1 = (ok, tried1, fs')))"
  by (auto split: if_splits prod.splits bool.splits)

lemma try_tools_names:
  "try_tools h cmds fs = (ok, tried, fs') \<Longrightarrow>
     map fst tried = take (length tried) (available h cmds)"
proof (induction cmds arbitrary: fs tried)
  case Nil
  then show ?case by simp
next
  case (Cons cmd rest)
  from try_tools_Cons [OF Cons.prems] show ?case
  proof (elim disjE conjE exE)
    assume "\<not> which h (hd cmd)" "try_tools h rest fs = (ok, tried, fs')"
    then show ?thesis using Cons.IH by (simp add: available_def)
  next
    assume "which h (hd cmd)" "tried = [(cmd, True)]"
    then show ?thesis by (simp add: available_def)
  next
    fix fs1 tried1
    assume "which h (hd cmd)" "tried = (cmd, False) # tried1"
      "try_tools h rest fs1 = (ok, tried1, fs')"
    then show ?thesis using Cons.IH [of fs1 tried1] by (simp add: available_def)
  qed
qed

lemma try_tools_earlier_failed:
  "try_tools h cmds fs = (ok, tried, fs') \<Longrightarrow> list_all (\<lambda>t. \<not> snd t) (butlast tried)"
proof (induction cmds arbitrary: fs tried)
  case Nil
  then show ?case by simp
next
  case (Cons cmd rest)
  from try_tools_Cons [OF Cons.prems] show ?case
  proof (elim disjE conjE exE)
    assume "try_tools h rest fs = (ok, tried, fs')"
    then show ?thesis using Cons.IH by simp
  next
    assume "tried = [(cmd, True)]"
    then show ?thesis by simp
  next
    fix fs1 tried1
    assume "tried = (cmd, False) # tried1" "try_tools h rest fs1 = (ok, tried1, fs')"
    then show ?thesis using Cons.IH [of fs1 tried1] by simp
  qed
qed

lemma try_tools_result:
  "try_tools h cmds fs = (ok, tried, fs') \<Longrightarrow> ok = (tried \<noteq> [] \<and> snd (last tried))"
proof (induction cmds arbitrary: fs tried)
  case Nil
  then show ?case by simp
next
  case (Cons cmd rest)
  from try_tools_Cons [OF Cons.prems] show ?case
  proof (elim disjE conjE exE)
    assume "try_tools h rest fs = (ok, tried, fs')"
    then show ?thesis using Cons.IH by simp
  next
    assume "ok" "tried = [(cmd, True)]"
    then show ?thesis by simp
  next
    fix fs1 tried1
    assume "tried = (cmd, False) # tried1" "try_tools h rest fs1 = (ok, tried1, fs')"
    then show ?thesis using Cons.IH [of fs1 tried1] by auto
  qed
qed

lemma try_tools_exhausted:
  "try_tools h cmds fs = (False, tried, fs') \<Longrightarrow> map fst tried = available h cmds"
proof (induction cmds arbitrary: fs tried)
  case Nil
  then show ?case by (simp add: available_def)
next
  case (Cons cmd rest)
  from try_tools_Cons [OF Cons.prems] show ?case
  proof (elim disjE conjE exE)
    assume "\<not> which h (hd cmd)" "try_tools h rest fs = (False, tried, fs')"
    then show ?thesis using Cons.IH by (simp add: available_def)
  next
    assume "False"
    then show ?thesis by simp
  next
    fix fs1 tried1
    assume "which h (hd cmd)" "tried = (cmd, False) # tried1"
      "try_tools h rest fs1 = (False, tried1, fs')"
    then show ?thesis using Cons.IH [of fs1 tried1] by (simp add: available_def)
  qed
qed

lemma try_tools_frame:
  assumes "\<And>cmd f. snd (run_command h cmd f) p = f p"
  shows "try_tools h cmds fs = (ok, tried, fs') \<Longrightarrow> fs' p = fs p"
proof (induction cmds arbitrary: fs tried)
  case Nil
  then show ?case by simp
next
  case (Cons cmd rest)
  from try_tools_Cons [OF Cons.prems] show ?case
  proof (elim disjE conjE exE)
    assume "try_tools h rest fs = (ok, tried, fs')"
    then show ?thesis using Cons.IH by simp
  next
    assume "run_command h cmd fs = (True, fs')"
    then show ?thesis using assms [of cmd fs] by simp
  next
    fix fs1 tried1
    assume "run_command h cmd fs = (False, fs1)" "try_tools h rest fs1 = (ok, tried1, fs')"
    then show ?thesis using Cons.IH [of fs1 tried1] assms [of cmd fs] by simp
  qed
qed

lemma available_tools:
  "map hd (available h (tools source_dir iso_path))
     = filter (which h) [''xorriso'', ''genisoimage'', ''mkisofs'']"
  by (simp add: available_def tools_def)

lemma create_iso_names:
  assumes "create_iso h source_dir iso_path fs = (ok, tried, fs')"
  shows "map (hd \<circ> fst) tried
       = take (length tried) (filter (which h) [''xorriso'', ''genisoimage'', ''mkisofs''])"
proof -
  have "map fst tried = take (length tried) (available h (tools source_dir iso_path))"
    using assms by (simp add: create_iso_def try_tools_names)
  then have "map hd (map fst tried)
      = take (length tried) (map hd (available h (tools source_dir iso_path)))"
    by (simp only: take_map)
  then show ?thesis by (simp only: available_tools map_map)
qed

lemma create_iso_exhausted:
  assumes "create_iso h source_dir iso_path fs = (False, tried, fs')"
  shows "map (hd \<circ> fst) tried = filter (which h) [''xorriso'', ''genisoimage'', ''mkisofs'']"
proof -
  have "map fst tried = available h (tools source_dir iso_path)"
    using assms by (simp add: create_iso_def try_tools_exhausted)
  then have "map hd (map fst tried) = map hd (available h (tools source_dir iso_path))"
    by simp
  then show ?thesis by (simp only: available_tools map_map)
qed

lemma try_tools_replay:
  "try_tools h cmds fs = (ok, tried, fs') \<Longrightarrow>
     replay h (map fst tried) fs = (map snd tried, fs')"
proof (induction cmds arbitrary: fs tried)
  case Nil
  then show ?case by simp
next
  case (Cons cmd rest)
  from try_tools_Cons [OF Cons.prems] show ?case
  proof (elim disjE conjE exE)
    assume "try_tools h rest fs = (ok, tried, fs')"
    then show ?thesis using Cons.IH by simp
  next
    assume "tried = [(cmd, True)]" "run_command h cmd fs = (True, fs')"
    then show ?thesis by simp
  next
    fix fs1 tried1
    assume "run_command h cmd fs = (False, fs1)" "tried = (cmd, False) # tried1"
      "try_tools h rest fs1 = (ok, tried1, fs')"
    then show ?thesis using Cons.IH [of fs1 tried1] by simp
  qed
qed

lemma available_Cons:
  "available h (cmd # rest) = (if which h (hd cmd) then cmd # available h rest else available h rest)"
  by (simp add: available_def)

lemma try_tools_characterised:
  assumes "map fst tried = take (length tried) (available h cmds)"
    and "replay h (map fst tried) fs = (map snd tried, fs')"
    and "list_all (\<lambda>t. \<not> snd t) (butlast tried)"
    and "ok = (tried \<noteq> [] \<and> snd (last tried))"
    and "\<not> ok \<longrightarrow> map fst tried = available h cmds"
  shows "try_tools h cmds fs = (ok, tried, fs')"
  using assms
proof (induction cmds arbitrary: fs tried)
  case Nil
  then show ?case by (simp add: available_def)
next
  case (Cons cmd rest)
  show ?case
  proof (cases "which h (hd cmd)")
    case False
    then have "try_tools h rest fs = (ok, tried, fs')"
      using Cons.IH [of tried fs] Cons.prems by (simp add: available_Cons)
    then show ?thesis using False by simp
  next
    case True
    then have av: "available h (cmd # rest) = cmd # available h rest"
      by (simp add: available_Cons)
    show ?thesis
    proof (cases tried)
      case Nil
      then show ?thesis using Cons.prems(4,5) av by simp
    next
      case (Cons t tried1)
      obtain c r where t: "t = (c, r)" by (cases t)
      have c: "c = cmd" using Cons.prems(1) Cons t av by simp
      obtain r1 fs1 where run: "run_command h cmd fs = (r1, fs1)"
        by (cases "run_command h cmd fs")
      obtain rs fs2 where rp1: "replay h (map fst tried1) fs1 = (rs, fs2)"
        by (cases "replay h (map fst tried1) fs1")
      have eq: "r1 = r" "rs = map snd tried1" "fs2 = fs'"
        using Cons.prems(2) Cons t c run rp1 by simp_all
      show ?thesis
      proof (cases r)
        case True
        have "tried1 = []"
        proof (rule ccontr)
          assume "tried1 \<noteq> []"
          then have "\<not> snd t" using Cons.prems(3) Cons by simp
          then show False using t True by simp
        qed
        then show ?thesis
          using Cons.prems(4) Cons t c True run eq rp1 \<open>which h (hd cmd)\<close> by simp
      next
        case False
        have 1: "map fst tried1 = take (length tried1) (available h rest)"
          using Cons.prems(1) Cons av by simp
        have 2: "replay h (map fst tried1) fs1 = (map snd tried1, fs')"
          using rp1 eq by simp
        have 3: "list_all (\<lambda>t. \<not> snd t) (butlast tried1)"
          using Cons.prems(3) Cons by (cases tried1) simp_all
        have 4: "ok = (tried1 \<noteq> [] \<and> snd (last tried1))"
          using Cons.prems(4) Cons t False by (cases tried1) simp_all
        have 5: "\<not> ok \<longrightarrow> map fst tried1 = available h rest"
          using Cons.prems(5) Cons av by simp
        have "try_tools h rest fs1 = (ok, tried1, fs')"
          using Cons.IH [OF 1 2 3 4 5] .
        then show ?thesis
          using Cons t c False run eq \<open>which h (hd cmd)\<close> by simp
      qed
    qed
  qed
qed

text \<open>
  C6. \<open>create_iso\<close> returns a result, a log and a file system exactly when the log names
  the available commands among xorriso, genisoimage and mkisofs, in this order, up to some
  point; running the logged commands one after the other with \<open>run_command\<close> gives the
  logged outcomes and the returned file system; every run but the last failed; the result
  is \<open>True\<close> exactly when the last run succeeded; and when the result is \<open>False\<close> every
  available command was run. After a failure the loop body returns the file system that the
  tools left, without \<open>rmtree\<close>; only after a success it removes the staging directory. A
  path that no tool writes is after \<open>create_iso\<close> as before.
\<close>

theorem archive_builder_fallback:
  "(create_iso h (dvd_dir_of ar d) (iso_path_of ar d) fs2 = (ok, tried, fs3))
     = (map fst tried
          = take (length tried) (available h (tools (dvd_dir_of ar d) (iso_path_of ar d)))
        \<and> replay h (map fst tried) fs2 = (map snd tried, fs3)
        \<and> list_all (\<lambda>t. \<not> snd t) (butlast tried)
        \<and> ok = (tried \<noteq> [] \<and> snd (last tried))
        \<and> (\<not> ok \<longrightarrow>
             map fst tried = available h (tools (dvd_dir_of ar d) (iso_path_of ar d))))
   \<and> map hd (available h (tools (dvd_dir_of ar d) (iso_path_of ar d)))
       = filter (which h) [''xorriso'', ''genisoimage'', ''mkisofs'']
   \<and> (create_iso h (dvd_dir_of ar d) (iso_path_of ar d) fs2 = (ok, tried, fs3) \<longrightarrow>
     map (hd \<circ> fst) tried
       = take (length tried) (filter (which h) [''xorriso'', ''genisoimage'', ''mkisofs''])
     \<and> list_all (\<lambda>t. \<not> snd t) (butlast tried)
     \<and> ok = (tried \<noteq> [] \<and> snd (last tried))
     \<and> (\<not> ok \<longrightarrow>
          map (hd \<circ> fst) tried = filter (which h) [''xorriso'', ''genisoimage'', ''mkisofs''])
     \<and> (stage_dvd ar h d fs = (None, fs2) \<and> \<not> arg_dry_run ar \<and> \<not> ok \<longrightarrow>
          process_dvd ar h d fs = (None, fs3))
     \<and> (stage_dvd ar h d fs = (None, fs2) \<and> \<not> arg_dry_run ar \<and> ok \<longrightarrow>
          process_dvd ar h d fs
            = (case rmtree (dvd_dir_of ar d) fs3 of
                 Inl e \<Rightarrow> (Some e, fs3)
               | Inr fs4 \<Rightarrow> (None, fs4)))
     \<and> ((\<forall>cmd f. snd (run_command h cmd f) p = f p) \<longrightarrow> fs3 p = fs2 p))"
proof -
  let ?cmds = "tools (dvd_dir_of ar d) (iso_path_of ar d)"
  have forth: "map fst tried = take (length tried) (available h ?cmds)
        \<and> replay h (map fst tried) fs2 = (map snd tried, fs3)
        \<and> list_all (\<lambda>t. \<not> snd t) (butlast tried)
        \<and> ok = (tried \<noteq> [] \<and> snd (last tried))
        \<and> (\<not> ok \<longrightarrow> map fst tried = available h ?cmds)"
    if c: "create_iso h (dvd_dir_of ar d) (iso_path_of ar d) fs2 = (ok, tried, fs3)"
  proof -
    have t: "try_tools h ?cmds fs2 = (ok, tried, fs3)"
      using c by (simp add: create_iso_def)
    have "map fst tried = available h ?cmds" if "\<not> ok"
      using t that try_tools_exhausted [of h ?cmds fs2 tried fs3] by simp
    then show ?thesis
      using try_tools_names [OF t] try_tools_replay [OF t] try_tools_earlier_failed [OF t]
        try_tools_result [OF t] by blast
  qed
  have conv: "create_iso h (dvd_dir_of ar d) (iso_path_of ar d) fs2 = (ok, tried, fs3)"
    if "map fst tried = take (length tried) (available h ?cmds)
        \<and> replay h (map fst tried) fs2 = (map snd tried, fs3)
        \<and> list_all (\<lambda>t. \<not> snd t) (butlast tried)
        \<and> ok = (tried \<noteq> [] \<and> snd (last tried))
        \<and> (\<not> ok \<longrightarrow> map fst tried = available h ?cmds)"
  proof -
    have "try_tools h ?cmds fs2 = (ok, tried, fs3)"
      using that by (intro try_tools_characterised) blast+
    then show ?thesis by (simp add: create_iso_def)
  qed
  have rest: "map (hd \<circ> fst) tried
       = take (length tried) (filter (which h) [''xorriso'', ''genisoimage'', ''mkisofs''])
     \<and> list_all (\<lambda>t. \<not> snd t) (butlast tried)
     \<and> ok = (tried \<noteq> [] \<and> snd (last tried))
     \<and> (\<not> ok \<longrightarrow>
          map (hd \<circ> fst) tried = filter (which h) [''xorriso'', ''genisoimage'', ''mkisofs''])
     \<and> (stage_dvd ar h d fs = (None, fs2) \<and> \<not> arg_dry_run ar \<and> \<not> ok \<longrightarrow>
          process_dvd ar h d fs = (None, fs3))
     \<and> (stage_dvd ar h d fs = (None, fs2) \<and> \<not> arg_dry_run ar \<and> ok \<longrightarrow>
          process_dvd ar h d fs
            = (case rmtree (dvd_dir_of ar d) fs3 of
                 Inl e \<Rightarrow> (Some e, fs3)
               | Inr fs4 \<Rightarrow> (None, fs4)))
     \<and> ((\<forall>cmd f. snd (run_command h cmd f) p = f p) \<longrightarrow> fs3 p = fs2 p)"
    if c: "create_iso h (dvd_dir_of ar d) (iso_path_of ar d) fs2 = (ok, tried, fs3)"
  proof -
    have t: "try_tools h ?cmds fs2 = (ok, tried, fs3)"
      using c by (simp add: create_iso_def)
    have a: "map (hd \<circ> fst) tried
       = take (length tried) (filter (which h) [''xorriso'', ''genisoimage'', ''mkisofs''])"
      using c by (rule create_iso_names)
    have b: "list_all (\<lambda>t. \<not> snd t) (butlast tried)"
      using t by (rule try_tools_earlier_failed)
    have r: "ok = (tried \<noteq> [] \<and> snd (last tried))"
      using t by (rule try_tools_result)
    have e: "map (hd \<circ> fst) tried = filter (which h) [''xorriso'', ''genisoimage'', ''mkisofs'']"
      if "\<not> ok"
      using c that create_iso_exhausted [of h "dvd_dir_of ar d" "iso_path_of ar d" fs2 tried fs3]
      by simp
    have f: "process_dvd ar h d fs = (None, fs3)"
      if "stage_dvd ar h d fs = (None, fs2)" "\<not> arg_dry_run ar" "\<not> ok"
      using that c by (simp add: process_dvd_def)
    have g: "process_dvd ar h d fs
            = (case rmtree (dvd_dir_of ar d) fs3 of
                 Inl e \<Rightarrow> (Some e, fs3)
               | Inr fs4 \<Rightarrow> (None, fs4))"
      if "stage_dvd ar h d fs = (None, fs2)" "\<not> arg_dry_run ar" "ok"
      using that c by (simp add: process_dvd_def)
    have i: "fs3 p = fs2 p" if "\<forall>cmd f. snd (run_command h cmd f) p = f p"
      using try_tools_frame [of h p _ fs2 ok tried fs3] that t by blast
    show ?thesis using a b r e f g i by blast
  qed
  show ?thesis
    using forth conv rest available_tools [of h "dvd_dir_of ar d" "iso_path_of ar d"]
    by blast
qed

theorem archive_builder_fallback_witness:
  "fst (stage_dvd example_args failing_host example_chunk example_library) = None
   \<and> \<not> arg_dry_run example_args
   \<and> \<not> fst (create_iso failing_host (dvd_dir_of example_args example_chunk)
               (iso_path_of example_args example_chunk)
               (snd (stage_dvd example_args failing_host example_chunk example_library)))
   \<and> map (hd \<circ> fst)
        (fst (snd (create_iso failing_host (dvd_dir_of example_args example_chunk)
               (iso_path_of example_args example_chunk)
               (snd (stage_dvd example_args failing_host example_chunk example_library)))))
       = [''genisoimage'', ''mkisofs'']
   \<and> fst (process_dvd example_args failing_host example_chunk example_library) = None
   \<and> snd (process_dvd example_args failing_host example_chunk example_library)
         ''backup/DVD_1/IMG.jpg'' = Some (File (Opaque ''two''))
   \<and> fst (stage_dvd example_args fallback_host example_chunk example_library) = None
   \<and> fst (create_iso fallback_host (dvd_dir_of example_args example_chunk)
               (iso_path_of example_args example_chunk)
               (snd (stage_dvd example_args fallback_host example_chunk example_library)))
   \<and> map (\<lambda>t. (hd (fst t), snd t))
        (fst (snd (create_iso fallback_host (dvd_dir_of example_args example_chunk)
               (iso_path_of example_args example_chunk)
               (snd (stage_dvd example_args fallback_host example_chunk example_library)))))
       = [(''xorriso'', False), (''genisoimage'', True)]
   \<and> snd (stage_dvd example_args fallback_host example_chunk example_library)
         ''backup/DVD_1/IMG.jpg'' = Some (File (Opaque ''two''))
   \<and> fst (process_dvd example_args fallback_host example_chunk example_library) = None
   \<and> snd (process_dvd example_args fallback_host example_chunk example_library)
         ''backup/DVD_1/IMG.jpg'' = None"
proof -
  let ?p = "''backup/DVD_1/IMG.jpg''"
  \<comment> \<open>every tool fails\<close>
  let ?fs2 = "snd (stage_dvd example_args failing_host example_chunk example_library)"
  let ?c = "create_iso failing_host (dvd_dir_of example_args example_chunk)
               (iso_path_of example_args example_chunk) ?fs2"
  have s1: "fst (stage_dvd example_args failing_host example_chunk example_library) = None"
    by code_simp
  have s2: "?fs2 ?p = Some (File (Opaque ''two''))"
    by code_simp
  have st: "stage_dvd example_args failing_host example_chunk example_library = (None, ?fs2)"
    using s1 by (simp add: prod_eq_iff)
  have nd: "\<not> arg_dry_run example_args" by (simp add: example_args_def)
  have no: "\<not> fst ?c"
    by (simp add: create_iso_def tools_def failing_host_def)
  have av: "filter (which failing_host) [''xorriso'', ''genisoimage'', ''mkisofs'']
      = [''genisoimage'', ''mkisofs'']"
    by (simp add: failing_host_def)
  have quiet: "\<forall>cmd f. snd (run_command failing_host cmd f) ?p = f ?p"
    by (simp add: failing_host_def)
  have c: "?c = (fst ?c, fst (snd ?c), snd (snd ?c))" by simp
  note th = archive_builder_fallback [of failing_host example_args example_chunk ?fs2
      "fst ?c" "fst (snd ?c)" "snd (snd ?c)" example_library ?p]
  from th c no have n: "map (hd \<circ> fst) (fst (snd ?c))
      = filter (which failing_host) [''xorriso'', ''genisoimage'', ''mkisofs'']"
    by blast
  from th c no st nd
  have p: "process_dvd example_args failing_host example_chunk example_library
      = (None, snd (snd ?c))"
    by blast
  from th c quiet have k: "snd (snd ?c) ?p = ?fs2 ?p"
    by blast
  have part1: "fst (stage_dvd example_args failing_host example_chunk example_library) = None
   \<and> \<not> arg_dry_run example_args \<and> \<not> fst ?c
   \<and> map (hd \<circ> fst) (fst (snd ?c)) = [''genisoimage'', ''mkisofs'']
   \<and> fst (process_dvd example_args failing_host example_chunk example_library) = None
   \<and> snd (process_dvd example_args failing_host example_chunk example_library) ?p
        = Some (File (Opaque ''two''))"
    using s1 nd no n av p k s2 by simp
  \<comment> \<open>the second tool succeeds\<close>
  let ?gs2 = "snd (stage_dvd example_args fallback_host example_chunk example_library)"
  let ?g = "create_iso fallback_host (dvd_dir_of example_args example_chunk)
               (iso_path_of example_args example_chunk) ?gs2"
  have t1: "fst (stage_dvd example_args fallback_host example_chunk example_library) = None"
    by code_simp
  have t2: "?gs2 ?p = Some (File (Opaque ''two''))"
    by code_simp
  have t3: "?gs2 ''backup/DVD_1'' = Some Directory"
    by code_simp
  have tt: "stage_dvd example_args fallback_host example_chunk example_library = (None, ?gs2)"
    using t1 by (simp add: prod_eq_iff)
  have ok: "fst ?g"
    by (simp add: create_iso_def tools_def fallback_host_def)
  have lg: "map (\<lambda>t. (hd (fst t), snd t)) (fst (snd ?g))
      = [(''xorriso'', False), (''genisoimage'', True)]"
    by (simp add: create_iso_def tools_def fallback_host_def)
  have quiet2: "\<forall>cmd f. snd (run_command fallback_host cmd f) q = f q" for q
    by (simp add: fallback_host_def)
  have g: "?g = (fst ?g, fst (snd ?g), snd (snd ?g))" by simp
  note th2 = archive_builder_fallback [of fallback_host example_args example_chunk ?gs2
      "fst ?g" "fst (snd ?g)" "snd (snd ?g)" example_library]
  have dd: "dvd_dir_of example_args example_chunk = ''backup/DVD_1''"
    by code_simp
  from th2 [of "''backup/DVD_1''"] g quiet2
  have d3: "snd (snd ?g) ''backup/DVD_1'' = Some Directory"
    using t3 by metis
  from th2 [of ?p] g ok tt nd
  have pr: "process_dvd example_args fallback_host example_chunk example_library
      = (case rmtree (dvd_dir_of example_args example_chunk) (snd (snd ?g)) of
           Inl e \<Rightarrow> (Some e, snd (snd ?g))
         | Inr fs4 \<Rightarrow> (None, fs4))"
    by blast
  have part2: "fst (process_dvd example_args fallback_host example_chunk example_library) = None
    \<and> snd (process_dvd example_args fallback_host example_chunk example_library) ?p = None"
    using d3 by (simp add: pr dd rmtree_def)
  show ?thesis
    using part1 t1 ok lg t2 part2 by simp
qed

section \<open>What the run leaves alone\<close>

lemma not_startswith_slash: "\<not> startswith s ''/'' \<longleftrightarrow> (s = [] \<or> hd s \<noteq> CHR ''/'')"
  by (cases s) (auto simp: startswith_def)

lemma split_on_nonempty: "split_on c s \<noteq> []"
  by (induction s) (auto split: list.splits)

lemma split_on_append: "split_on c (a @ c # b) = split_on c a @ split_on c b"
proof (induction a)
  case Nil
  then show ?case by simp
next
  case (Cons x a)
  then show ?case
    using split_on_nonempty [of c a] by (cases "split_on c a") auto
qed

lemma comps_append_slash: "comps (a @ CHR ''/'' # b) = comps a @ comps b"
  by (simp add: comps_def split_on_append)

lemma comps_Nil: "comps [] = []"
  by (simp add: comps_def)

lemma comps_join: "\<not> startswith b ''/'' \<Longrightarrow> comps (join a b) = comps a @ comps b"
proof -
  assume r: "\<not> startswith b ''/''"
  show ?thesis
  proof (cases "a = [] \<or> endswith a ''/''")
    case False
    then show ?thesis using r comps_append_slash [of a b] by (simp add: join_def)
  next
    case True
    show ?thesis
    proof (cases "a = []")
      case True
      then show ?thesis using r by (simp add: join_def comps_Nil)
    next
      case False
      then have "endswith a ''/''" using True by simp
      then obtain a' where a: "a = a' @ ''/''"
        by (auto simp: endswith_def suffix_def)
      have "comps a = comps a'"
        using comps_append_slash [of a' "[]"] a by (simp add: comps_Nil)
      moreover have "comps (a @ b) = comps a' @ comps b"
        using comps_append_slash [of a' b] a by simp
      ultimately show ?thesis using r True by (simp add: join_def)
    qed
  qed
qed

lemma inside_refl: "inside d d"
  by (simp add: inside_def)

lemma inside_trans: "inside a b \<Longrightarrow> inside b c \<Longrightarrow> inside a c"
  by (auto simp: inside_def dest: prefix_order.trans)

lemma join_inside: "\<not> startswith b ''/'' \<Longrightarrow> inside a (join a b)"
  by (simp add: inside_def comps_join)

lemma below_inside: "prefix (d @ ''/'') p \<Longrightarrow> inside d p"
proof -
  assume "prefix (d @ ''/'') p"
  then obtain r where "p = d @ CHR ''/'' # r" by (auto simp: prefix_def)
  then show ?thesis by (simp add: inside_def comps_append_slash)
qed

lemma drop_of_append: "p = a @ b \<Longrightarrow> drop (length a) p = b"
  by simp

lemma rfind_member:
  assumes "c \<in> set p"
  shows "0 \<le> rfind p c" and "nat (rfind p c) < length p" and "p ! nat (rfind p c) = c"
    and "c \<notin> set (drop (nat (rfind p c + 1)) p)"
proof -
  let ?P = "\<lambda>x. x \<noteq> c"
  let ?t = "takeWhile ?P (rev p)"
  let ?d = "dropWhile ?P (rev p)"
  let ?n = "length ?t"
  have "?d \<noteq> []"
    using assms by (auto simp: dropWhile_eq_Nil_conv)
  then have "0 < length ?d" by simp
  moreover have "length (?t @ ?d) = length (rev p)"
    by (simp only: takeWhile_dropWhile_id)
  then have len: "length p = ?n + length ?d"
    by (simp only: length_append length_rev)
  ultimately have n: "?n < length p" by linarith
  have r: "rfind p c = int (length p) - 1 - int ?n"
    using assms by (simp add: rfind_def)
  show "0 \<le> rfind p c" using n r by simp
  show "nat (rfind p c) < length p" using n r by simp
  have k: "nat (rfind p c) = length p - 1 - ?n" using n r by simp
  have "rev p ! ?n = c"
    using nth_length_takeWhile [of ?P "rev p"] n by simp
  then show "p ! nat (rfind p c) = c"
    using n k by (simp add: rev_nth)
  have "rev (?t @ ?d) = rev (rev p)"
    by (simp only: takeWhile_dropWhile_id)
  then have "p = rev ?d @ rev ?t"
    by (simp only: rev_append rev_rev_ident)
  then have "drop (length (rev ?d)) p = rev ?t"
    by (rule drop_of_append)
  moreover have "nat (rfind p c + 1) = length (rev ?d)" using n r len by simp
  ultimately have "drop (nat (rfind p c + 1)) p = rev ?t"
    by simp
  then show "c \<notin> set (drop (nat (rfind p c + 1)) p)"
    by (auto dest: set_takeWhileD)
qed

lemma basename_no_slash: "CHR ''/'' \<notin> set (basename p)"
proof (cases "CHR ''/'' \<in> set p")
  case True
  then show ?thesis using rfind_member(4) [of "CHR ''/''" p] by (simp add: basename_def)
next
  case False
  then show ?thesis by (simp add: basename_def rfind_def)
qed

lemma basename_relative: "\<not> startswith (basename p) ''/''"
  using basename_no_slash [of p] by (cases "basename p") (auto simp: startswith_def)

lemma splitext_fst_prefix: "prefix (fst (splitext p)) p"
  by (simp add: splitext_def Let_def take_is_prefix)

lemma splitext_snd_relative: "\<not> startswith (snd (splitext p)) ''/''"
proof (cases "CHR ''.'' \<in> set p")
  case False
  then show ?thesis by (simp add: splitext_def Let_def rfind_def startswith_def)
next
  case True
  let ?k = "nat (rfind p (CHR ''.''))"
  have "drop ?k p = p ! ?k # drop (Suc ?k) p"
    using rfind_member(2) [OF True] by (simp add: Cons_nth_drop_Suc)
  then have "drop ?k p = CHR ''.'' # drop (Suc ?k) p"
    using rfind_member(3) [OF True] by simp
  then show ?thesis by (simp add: splitext_def Let_def startswith_def)
qed

lemma target_filename_relative:
  assumes "\<not> startswith name ''/''"
  shows "\<not> startswith (target_filename_of name hp) ''/''"
proof (cases name)
  case Nil
  then show ?thesis
    using splitext_snd_relative [of hp]
    by (simp add: target_filename_of_def target_filename_with_def Let_def startswith_def)
next
  case (Cons c cs)
  then show ?thesis
    using assms by (simp add: target_filename_of_def target_filename_with_def Let_def startswith_def)
qed

lemma stem_relative:
  assumes "\<not> startswith tf ''/''"
  shows "\<not> startswith (fst (splitext tf) @ ''_'' @ rest) ''/''"
proof (cases "fst (splitext tf)")
  case Nil
  then show ?thesis by (simp add: startswith_def)
next
  case (Cons c cs)
  obtain zs where "tf = (c # cs) @ zs"
    using splitext_fst_prefix [of tf] Cons by (auto simp: prefix_def)
  then show ?thesis using assms Cons by (simp add: startswith_def)
qed

lemma target_path_below:
  assumes "\<not> startswith (originalFileName a) ''/''"
  shows "inside d (target_path_of a d hp fs)"
proof -
  have r: "\<not> startswith (target_filename_of (originalFileName a) hp) ''/''"
    using assms by (rule target_filename_relative)
  show ?thesis
    using join_inside [OF r, of d]
      join_inside [OF stem_relative [OF r, of "asset_id a @ snd (splitext hp)"], of d]
    by (simp add: target_path_of_def Let_def)
qed

lemma os_link_frame: "os_link src dst fs = Inr fs' \<Longrightarrow> p \<noteq> dst \<Longrightarrow> fs' p = fs p"
  by (auto simp: os_link_def split: option.splits node.splits if_splits)

lemma copy2_frame: "copy2 src dst fs = Inr fs' \<Longrightarrow> \<not> inside dst p \<Longrightarrow> fs' p = fs p"
proof -
  assume c: "copy2 src dst fs = Inr fs'" and n: "\<not> inside dst p"
  have "inside dst (join dst (basename src))"
    using basename_relative by (rule join_inside)
  then have "p \<noteq> join dst (basename src)" using n by auto
  moreover have "p \<noteq> dst" using n inside_refl by auto
  ultimately show ?thesis
    using c by (auto simp: copy2_def Let_def split: option.splits node.splits if_splits)
qed

lemma place_frame: "place ul hp tp fs = (ok, fs') \<Longrightarrow> \<not> inside tp p \<Longrightarrow> fs' p = fs p"
proof -
  assume pl: "place ul hp tp fs = (ok, fs')" and n: "\<not> inside tp p"
  have "p \<noteq> tp" using n inside_refl by auto
  then show ?thesis
    using pl n os_link_frame [of hp tp fs fs' p] copy2_frame [of hp tp fs fs' p]
    by (auto simp: place_def split: if_splits sum.splits)
qed

lemma task_step_frame:
  assumes "task_step d dr ul t fs = (t', fs')" and "task_below d t" and "\<not> inside d p"
  shows "task_below d t' \<and> fs' p = fs p"
proof (cases t)
  case (Pending a)
  then show ?thesis
    using assms target_path_below [of a d]
    by (auto simp: task_step_def task_below_def Let_def split: option.splits if_splits)
next
  case (Chosen a hp tp)
  obtain ok fs1 where pl: "place ul hp tp fs = (ok, fs1)" by (cases "place ul hp tp fs")
  have "inside d tp" using assms(2) Chosen by (simp add: task_below_def)
  then have "\<not> inside tp p" using assms(3) by (auto dest: inside_trans)
  from place_frame [OF pl this] show ?thesis
    using assms(1) Chosen pl by (auto simp: task_step_def task_below_def)
next
  case (Done a ok)
  then show ?thesis using assms by (auto simp: task_step_def task_below_def)
qed

lemma run_schedule_frame:
  assumes "\<not> inside d p"
  shows "list_all (task_below d) ts \<Longrightarrow> run_schedule d dr ul sched ts fs = (ts', fs') \<Longrightarrow>
         list_all (task_below d) ts' \<and> fs' p = fs p"
proof (induction sched arbitrary: ts fs)
  case Nil
  then show ?case by simp
next
  case (Cons i sched)
  show ?case
  proof (cases "i < length ts")
    case False
    with Cons show ?thesis by simp
  next
    case True
    obtain t1 fs1 where st: "task_step d dr ul (ts ! i) fs = (t1, fs1)"
      by (cases "task_step d dr ul (ts ! i) fs")
    have "task_below d (ts ! i)" using Cons.prems(1) True by (simp add: list_all_length)
    from task_step_frame [OF st this assms] have b: "task_below d t1" and f: "fs1 p = fs p"
      by simp_all
    have l: "list_all (task_below d) (ts[i := t1])"
      using Cons.prems(1) b True by (simp add: list_all_length nth_list_update)
    have "run_schedule d dr ul sched (ts[i := t1]) fs1 = (ts', fs')"
      using Cons.prems(2) True st by simp
    from Cons.IH [OF l this] show ?thesis using f by simp
  qed
qed

lemma finish_task_frame:
  assumes "finish_task d dr ul t fs = (t', fs')" and "task_below d t" and "\<not> inside d p"
  shows "fs' p = fs p"
proof -
  obtain t1 fs1 where s1: "task_step d dr ul t fs = (t1, fs1)"
    by (cases "task_step d dr ul t fs")
  then have s2: "task_step d dr ul t1 fs1 = (t', fs')"
    using assms(1) by (simp add: finish_task_def)
  from task_step_frame [OF s1 assms(2,3)] task_step_frame [OF s2 _ assms(3)]
  show ?thesis by simp
qed

lemma drain_frame:
  assumes "\<not> inside d p"
  shows "list_all (task_below d) ts \<Longrightarrow> drain d dr ul ts fs = (ts', fs') \<Longrightarrow> fs' p = fs p"
proof (induction ts arbitrary: fs ts' fs')
  case Nil
  then show ?case by simp
next
  case (Cons t ts)
  obtain t1 fs1 where f: "finish_task d dr ul t fs = (t1, fs1)"
    by (cases "finish_task d dr ul t fs")
  obtain ts1 fs2 where d: "drain d dr ul ts fs1 = (ts1, fs2)"
    by (cases "drain d dr ul ts fs1")
  have e: "fs' = fs2" using Cons.prems(2) f d by simp
  have "fs1 p = fs p"
    using finish_task_frame [OF f _ assms] Cons.prems(1) by simp
  moreover have "fs2 p = fs1 p"
    using Cons.IH [OF _ d] Cons.prems(1) by simp
  ultimately show ?case using e by simp
qed

lemma materialize_frame:
  assumes "\<not> inside d p" and "list_all (\<lambda>a. \<not> startswith (originalFileName a) ''/'') xs"
    and "materialize d dr ul sched xs fs = (ts, fs')"
  shows "fs' p = fs p"
proof -
  obtain ts1 fs1 where r: "run_schedule d dr ul sched (map Pending xs) fs = (ts1, fs1)"
    by (cases "run_schedule d dr ul sched (map Pending xs) fs")
  then have dr: "drain d dr ul ts1 fs1 = (ts, fs')"
    using assms(3) by (simp add: materialize_def)
  have "list_all (task_below d) (map Pending xs)"
    using assms(2) by (simp add: list_all_iff task_below_def)
  from run_schedule_frame [OF assms(1) this r]
  have "list_all (task_below d) ts1" and "fs1 p = fs p" by simp_all
  then show ?thesis using drain_frame [OF assms(1) _ dr] by simp
qed

lemma makedirs_frame: "makedirs q fs = Inr fs' \<Longrightarrow> p \<noteq> q \<Longrightarrow> fs' p = fs p"
  by (auto simp: makedirs_def split: option.splits node.splits)

lemma rmtree_frame: "rmtree d fs = Inr fs' \<Longrightarrow> \<not> inside d p \<Longrightarrow> fs' p = fs p"
  using inside_refl [of d] by (auto simp: rmtree_def split: option.splits node.splits dest: below_inside)

lemma dvd_dir_below: "inside (arg_backup_dir ar) (dvd_dir_of ar d)"
  unfolding dvd_dir_of_def by (rule join_inside) (simp add: startswith_def)

lemma outside_dvd_dir:
  "\<not> inside (arg_backup_dir ar) p \<Longrightarrow> \<not> inside (dvd_dir_of ar d) p"
  using dvd_dir_below [of ar d] by (auto dest: inside_trans)

lemma stage_dvd_frame:
  assumes "\<not> inside (arg_backup_dir ar) p"
    and "list_all (\<lambda>a. \<not> startswith (originalFileName a) ''/'') (dvd_assets d)"
    and "stage_dvd ar h d fs = (e, fs')"
  shows "fs' p = fs p"
proof -
  have o: "\<not> inside (dvd_dir_of ar d) p" using assms(1) by (rule outside_dvd_dir)
  then have ne: "p \<noteq> dvd_dir_of ar d" using inside_refl by auto
  let ?m = "if \<not> arg_dry_run ar then makedirs (dvd_dir_of ar d) fs else Inr fs"
  show ?thesis
  proof (cases ?m)
    case (Inl x)
    then show ?thesis using assms(3) by (simp add: stage_dvd_def)
  next
    case (Inr fs1)
    then have f1: "fs1 p = fs p"
      using makedirs_frame [of "dvd_dir_of ar d" fs fs1 p] ne by (auto split: if_splits)
    show ?thesis
    proof (cases "arg_threads ar \<le> 0")
      case True
      then show ?thesis using assms(3) Inr f1 by (simp add: stage_dvd_def)
    next
      case False
      obtain ts fs2 where m: "materialize (dvd_dir_of ar d) (arg_dry_run ar) (arg_use_links ar)
          (schedule h (dvd_num d)) (dvd_assets d) fs1 = (ts, fs2)"
        by (cases "materialize (dvd_dir_of ar d) (arg_dry_run ar) (arg_use_links ar)
          (schedule h (dvd_num d)) (dvd_assets d) fs1")
      have "fs2 p = fs1 p" using materialize_frame [OF o assms(2) m] .
      moreover have "fs' = fs2" using assms(3) Inr False m by (simp add: stage_dvd_def)
      ultimately show ?thesis using f1 by simp
    qed
  qed
qed

lemma process_dvd_frame:
  assumes "\<not> inside (arg_backup_dir ar) p"
    and "list_all (\<lambda>a. \<not> startswith (originalFileName a) ''/'') (dvd_assets d)"
    and "\<forall>cmd f. snd (run_command h cmd f) p = f p"
    and "process_dvd ar h d fs = (e, fs')"
  shows "fs' p = fs p"
proof -
  obtain e2 fs2 where s: "stage_dvd ar h d fs = (e2, fs2)" by (cases "stage_dvd ar h d fs")
  have f2: "fs2 p = fs p" using stage_dvd_frame [OF assms(1,2) s] .
  obtain ok tried fs3 where c:
    "create_iso h (dvd_dir_of ar d) (iso_path_of ar d) fs2 = (ok, tried, fs3)"
    by (cases "create_iso h (dvd_dir_of ar d) (iso_path_of ar d) fs2") auto
  then have f3: "fs3 p = fs2 p"
    using try_tools_frame [of h p] assms(3) by (simp add: create_iso_def)
  have o: "\<not> inside (dvd_dir_of ar d) p" using assms(1) by (rule outside_dvd_dir)
  show ?thesis
  proof (cases e2)
    case (Some x)
    then show ?thesis using assms(4) s f2 by (simp add: process_dvd_def)
  next
    case None
    show ?thesis
    proof (cases "arg_dry_run ar")
      case True
      then show ?thesis using assms(4) s f2 None by (simp add: process_dvd_def)
    next
      case False
      show ?thesis
      proof (cases ok)
        case False
        then show ?thesis
          using assms(4) s None c f2 f3 \<open>\<not> arg_dry_run ar\<close> by (simp add: process_dvd_def)
      next
        case True
        show ?thesis
        proof (cases "rmtree (dvd_dir_of ar d) fs3")
          case (Inl x)
          then show ?thesis
            using assms(4) s None c f2 f3 True \<open>\<not> arg_dry_run ar\<close>
            by (simp add: process_dvd_def)
        next
          case (Inr fs4)
          then have "fs4 p = fs3 p" using rmtree_frame [OF _ o] by simp
          then show ?thesis
            using assms(4) s None c f2 f3 True Inr \<open>\<not> arg_dry_run ar\<close>
            by (simp add: process_dvd_def)
        qed
      qed
    qed
  qed
qed

lemma process_all_frame:
  assumes "\<not> inside (arg_backup_dir ar) p"
    and "\<forall>cmd f. snd (run_command h cmd f) p = f p"
  shows "list_all (\<lambda>d. list_all (\<lambda>a. \<not> startswith (originalFileName a) ''/'') (dvd_assets d)) ds
         \<Longrightarrow> process_all ar h ds fs = (e, fs') \<Longrightarrow> fs' p = fs p"
proof (induction ds arbitrary: fs)
  case Nil
  then show ?case by simp
next
  case (Cons d ds)
  obtain e1 fs1 where p1: "process_dvd ar h d fs = (e1, fs1)" by (cases "process_dvd ar h d fs")
  have f1: "fs1 p = fs p"
    using process_dvd_frame [OF assms(1) _ assms(2) p1] Cons.prems(1) by simp
  show ?case
  proof (cases e1)
    case (Some x)
    then show ?thesis using Cons.prems(2) p1 f1 by simp
  next
    case None
    then have "process_all ar h ds fs1 = (e, fs')" using Cons.prems(2) p1 by simp
    then show ?thesis using Cons.IH [of fs1] Cons.prems(1) f1 by simp
  qed
qed

lemma to_process_subset: "set (to_process ch cs) \<subseteq> set cs"
  by (cases ch) (auto simp: to_process_def Let_def)

lemma organize_members: "c \<in> set (organize cap xs) \<Longrightarrow> set (dvd_assets c) \<subseteq> set xs"
proof -
  assume "c \<in> set (organize cap xs)"
  then have "set (dvd_assets c) \<subseteq> set (concat (map dvd_assets (organize cap xs)))"
    by auto
  then show ?thesis by (simp only: concat_organize)
qed

lemma main_tracker:
  "tracker (main ar h db ch fs)
     = (case makedirs (arg_backup_dir ar) fs of
          Inl e \<Rightarrow> None
        | Inr fs1 \<Rightarrow> Some (fst (BackupState_init (arg_state_file ar) fs1)))"
  by (simp add: main_def split: sum.splits prod.splits option.splits)

lemma main_frame:
  assumes "\<not> inside (arg_backup_dir ar) p"
    and "\<forall>xs. db = Some xs \<longrightarrow> list_all (\<lambda>a. \<not> startswith (originalFileName a) ''/'') xs"
    and "\<forall>cmd f. snd (run_command h cmd f) p = f p"
  shows "disk (main ar h db ch fs) p = fs p"
proof (cases "makedirs (arg_backup_dir ar) fs")
  case (Inl e)
  then show ?thesis by (simp add: main_def)
next
  case (Inr fs1)
  have "p \<noteq> arg_backup_dir ar" using assms(1) inside_refl by auto
  then have f1: "fs1 p = fs p" using makedirs_frame [OF Inr] by simp
  obtain st w where i: "BackupState_init (arg_state_file ar) fs1 = (st, w)"
    by (cases "BackupState_init (arg_state_file ar) fs1")
  show ?thesis
  proof (cases db)
    case None
    then show ?thesis using Inr i f1 by (simp add: main_def)
  next
    case (Some xs)
    show ?thesis
    proof (cases "xs = []")
      case True
      then show ?thesis using Inr i f1 Some by (simp add: main_def)
    next
      case False
      let ?ds = "to_process ch (organize (arg_capacity ar) xs)"
      obtain e fs2 where pa: "process_all ar h ?ds fs1 = (e, fs2)"
        by (cases "process_all ar h ?ds fs1")
      have rel: "list_all (\<lambda>a. \<not> startswith (originalFileName a) ''/'') xs"
        using assms(2) Some by simp
      have "list_all (\<lambda>d. list_all (\<lambda>a. \<not> startswith (originalFileName a) ''/'') (dvd_assets d)) ?ds"
        unfolding list_all_iff
      proof (intro ballI)
        fix d a assume "d \<in> set ?ds" "a \<in> set (dvd_assets d)"
        then have "a \<in> set xs"
          using to_process_subset [of ch "organize (arg_capacity ar) xs"]
            organize_members [of d "arg_capacity ar" xs] by auto
        then show "\<not> startswith (originalFileName a) ''/''"
          using rel by (simp add: list_all_iff)
      qed
      from process_all_frame [OF assms(1) assms(3) this pa] have "fs2 p = fs1 p" .
      then show ?thesis using Inr i f1 Some False pa by (simp add: main_def)
    qed
  qed
qed

lemma plain_relative: "CHR ''/'' \<notin> set s \<Longrightarrow> \<not> startswith s ''/''"
  by (cases s) (auto simp: startswith_def)

text \<open>
  The comparison by components sees through the spelling: a state file written with a
  leading \<open>./\<close> is inside the backup directory written without it.
\<close>

lemma dotted_spelling_is_inside:
  "inside ''backup'' ''./backup/DVD_1/state.json''
   \<and> inside ''./immich_backups'' ''immich_backups//DVD_2/./x''
   \<and> \<not> inside ''./immich_backups'' ''./immich_backup_state.json''"
  by code_simp

text \<open>
  C10, amended. \<open>main\<close> creates the tracker and never passes it on: at the end the tracker
  is as \<open>load\<close> left it, so neither \<open>update\<close> nor \<open>save\<close> has run. The state file is at the
  end as at the start under these conditions: the state file is neither the backup
  directory, nor inside it, nor one of the directories above it, whatever the spelling of
  the two paths (compared by components, both relative or both absolute, without a step
  \<open>..\<close>); no display name and no asset identifier contains a separator; hard links are not
  asked for; and the image tools do not write the state file. Symbolic links and further
  hard links to the state file are outside the model.
\<close>

theorem pipeline_never_records_progress:
  "tracker (main ar h db ch fs)
     = (case makedirs (arg_backup_dir ar) fs of
          Inl e \<Rightarrow> None
        | Inr fs1 \<Rightarrow> Some (fst (BackupState_init (arg_state_file ar) fs1)))
   \<and> (is_abs (arg_backup_dir ar) = is_abs (arg_state_file ar)
        \<and> \<not> climbs (arg_backup_dir ar) \<and> \<not> climbs (arg_state_file ar)
        \<and> \<not> inside (arg_backup_dir ar) (arg_state_file ar)
        \<and> \<not> inside (arg_state_file ar) (arg_backup_dir ar)
        \<and> \<not> arg_use_links ar
        \<and> (\<forall>xs. db = Some xs \<longrightarrow>
               list_all (\<lambda>a. CHR ''/'' \<notin> set (originalFileName a)
                            \<and> CHR ''/'' \<notin> set (asset_id a)) xs)
        \<and> (\<forall>cmd f. snd (run_command h cmd f) (arg_state_file ar) = f (arg_state_file ar))
        \<longrightarrow> disk (main ar h db ch fs) (arg_state_file ar) = fs (arg_state_file ar)
            \<and> tracker (main ar h db ch fs)
                = (case makedirs (arg_backup_dir ar) fs of
                     Inl e \<Rightarrow> None
                   | Inr fs1 \<Rightarrow> Some (fst (BackupState_init (arg_state_file ar) fs))))"
proof -
  have t: "tracker (main ar h db ch fs)
     = (case makedirs (arg_backup_dir ar) fs of
          Inl e \<Rightarrow> None
        | Inr fs1 \<Rightarrow> Some (fst (BackupState_init (arg_state_file ar) fs1)))"
    by (rule main_tracker)
  have same: "BackupState_init (arg_state_file ar) fs1 = BackupState_init (arg_state_file ar) fs"
    if "makedirs (arg_backup_dir ar) fs = Inr fs1" "\<not> inside (arg_backup_dir ar) (arg_state_file ar)"
    for fs1
  proof -
    have "arg_state_file ar \<noteq> arg_backup_dir ar" using that(2) inside_refl by auto
    then have "fs1 (arg_state_file ar) = fs (arg_state_file ar)"
      using makedirs_frame [OF that(1)] by simp
    then show ?thesis by (simp add: BackupState_init_def load_def)
  qed
  have t': "tracker (main ar h db ch fs)
                = (case makedirs (arg_backup_dir ar) fs of
                     Inl e \<Rightarrow> None
                   | Inr fs1 \<Rightarrow> Some (fst (BackupState_init (arg_state_file ar) fs)))"
    if "\<not> inside (arg_backup_dir ar) (arg_state_file ar)"
    using t same that by (cases "makedirs (arg_backup_dir ar) fs") simp_all
  have fr: "disk (main ar h db ch fs) (arg_state_file ar) = fs (arg_state_file ar)"
    if o: "\<not> inside (arg_backup_dir ar) (arg_state_file ar)"
      and n: "\<forall>xs. db = Some xs \<longrightarrow>
               list_all (\<lambda>a. CHR ''/'' \<notin> set (originalFileName a)
                            \<and> CHR ''/'' \<notin> set (asset_id a)) xs"
      and q: "\<forall>cmd f. snd (run_command h cmd f) (arg_state_file ar) = f (arg_state_file ar)"
  proof -
    have "\<forall>xs. db = Some xs \<longrightarrow>
        list_all (\<lambda>a. \<not> startswith (originalFileName a) ''/'') xs"
      using n by (auto simp: list_all_iff dest: plain_relative)
    then show ?thesis using main_frame [OF o _ q] by blast
  qed
  show ?thesis using t t' fr by blast
qed

text \<open>
  A state file inside the staging directory of the first chunk is removed with that
  directory once the image is built.
\<close>

theorem state_file_in_staging_counterexample:
  "example_disk ''backup/DVD_1/state.json'' = Some (File (Json (state_doc example_state)))
   \<and> raised (main (example_args\<lparr> arg_state_file := ''backup/DVD_1/state.json'' \<rparr>) working_host
        (Some [example_asset ''u2'' ''IMG.jpg'' (Some 2048)]) Everything example_disk) = None
   \<and> disk (main (example_args\<lparr> arg_state_file := ''backup/DVD_1/state.json'' \<rparr>) working_host
        (Some [example_asset ''u2'' ''IMG.jpg'' (Some 2048)]) Everything example_disk)
        ''backup/DVD_1/state.json'' = None"
  by code_simp

theorem pipeline_never_records_progress_witness:
  "is_abs (arg_backup_dir example_args) = is_abs (arg_state_file example_args)
   \<and> \<not> climbs (arg_backup_dir example_args) \<and> \<not> climbs (arg_state_file example_args)
   \<and> \<not> inside (arg_backup_dir example_args) (arg_state_file example_args)
   \<and> \<not> inside (arg_state_file example_args) (arg_backup_dir example_args)
   \<and> \<not> arg_use_links example_args
   \<and> list_all (\<lambda>a. CHR ''/'' \<notin> set (originalFileName a) \<and> CHR ''/'' \<notin> set (asset_id a))
        [example_asset ''u2'' ''IMG.jpg'' (Some 2048)]
   \<and> disk (main example_args working_host (Some [example_asset ''u2'' ''IMG.jpg'' (Some 2048)])
        Everything example_disk) ''./immich_backup_state.json''
       = Some (File (Json (state_doc example_state)))
   \<and> tracker (main example_args working_host (Some [example_asset ''u2'' ''IMG.jpg'' (Some 2048)])
        Everything example_disk) = Some example_state"
proof -
  have sf: "arg_state_file example_args = ''./immich_backup_state.json''"
    and bd: "arg_backup_dir example_args = ''backup''"
    by (simp_all add: example_args_def)
  have h0: "is_abs (arg_backup_dir example_args) = is_abs (arg_state_file example_args)"
    by (simp add: sf bd is_abs_def startswith_def)
  have h1: "\<not> climbs (arg_backup_dir example_args)" "\<not> climbs (arg_state_file example_args)"
    unfolding sf bd by code_simp+
  have h2: "\<not> inside (arg_backup_dir example_args) (arg_state_file example_args)"
    "\<not> inside (arg_state_file example_args) (arg_backup_dir example_args)"
    unfolding sf bd by code_simp+
  have h3: "\<not> arg_use_links example_args" by (simp add: example_args_def)
  have h4: "list_all (\<lambda>a. CHR ''/'' \<notin> set (originalFileName a) \<and> CHR ''/'' \<notin> set (asset_id a))
        [example_asset ''u2'' ''IMG.jpg'' (Some 2048)]"
    by (simp add: example_asset_def)
  then have h4': "\<forall>xs. Some [example_asset ''u2'' ''IMG.jpg'' (Some 2048)] = Some xs \<longrightarrow>
      list_all (\<lambda>a. CHR ''/'' \<notin> set (originalFileName a) \<and> CHR ''/'' \<notin> set (asset_id a)) xs"
    by simp
  have h5: "\<forall>cmd f. snd (run_command working_host cmd f) (arg_state_file example_args)
      = f (arg_state_file example_args)"
    by (simp add: working_host_def)
  have d0: "example_disk ''./immich_backup_state.json'' = Some (File (Json (state_doc example_state)))"
    by (simp add: example_disk_def)
  have mk: "makedirs ''backup'' example_disk = Inr example_disk"
    by (simp add: makedirs_def example_disk_def example_library_def)
  have ld: "BackupState_init ''./immich_backup_state.json'' example_disk = (example_state, False)"
    using d0 by (simp add: BackupState_init_def load_def state_doc_def dict_get_def example_state_def)
  note th = pipeline_never_records_progress [of example_args working_host
      "Some [example_asset ''u2'' ''IMG.jpg'' (Some 2048)]" Everything example_disk]
  from th h0 h1 h2 h3 h4' h5
  have "disk (main example_args working_host (Some [example_asset ''u2'' ''IMG.jpg'' (Some 2048)])
        Everything example_disk) (arg_state_file example_args)
       = example_disk (arg_state_file example_args)"
    by blast
  then have a: "disk (main example_args working_host
        (Some [example_asset ''u2'' ''IMG.jpg'' (Some 2048)]) Everything example_disk)
        ''./immich_backup_state.json'' = Some (File (Json (state_doc example_state)))"
    by (simp add: sf d0)
  from th
  have "tracker (main example_args working_host (Some [example_asset ''u2'' ''IMG.jpg'' (Some 2048)])
        Everything example_disk)
     = (case makedirs (arg_backup_dir example_args) example_disk of
          Inl e \<Rightarrow> None
        | Inr fs1 \<Rightarrow> Some (fst (BackupState_init (arg_state_file example_args) fs1)))"
    by blast
  then have b: "tracker (main example_args working_host
        (Some [example_asset ''u2'' ''IMG.jpg'' (Some 2048)]) Everything example_disk)
      = Some example_state"
    by (simp add: sf bd mk ld)
  show ?thesis using h0 h1 h2 h3 h4 a b by blast
qed

section \<open>Two assets at one path\<close>

lemma finish_task_Pending:
  "finish_task d dr ul (Pending a) fs
     = (case copy_asset a d dr ul fs of (ok, fs') \<Rightarrow> (Done a ok, fs'))"
  by (auto simp: finish_task_def task_step_def copy_asset_def Let_def
      split: option.splits prod.splits)

lemma drain_Pending:
  "drain d dr ul (Pending a # ts) fs
     = (case copy_asset a d dr ul fs of
          (ok, fs') \<Rightarrow> (case drain d dr ul ts fs' of (ts', fs'') \<Rightarrow> (Done a ok # ts', fs'')))"
  by (simp add: finish_task_Pending split: prod.splits)

text \<open>
  C5 asks that no two distinct assets of a chunk are written to the same final path. The
  code does not keep this. With one worker, where the calls run in the order of the chunk:
  \<open>u1\<close> is placed at \<open>IMG_u3.jpg\<close>, \<open>u2\<close> at \<open>IMG.jpg\<close>, and \<open>u3\<close>, whose name \<open>IMG.jpg\<close>
  is taken, at \<open>IMG_u3.jpg\<close> again, a path that \<open>copy_asset\<close> does not test; all three calls
  return \<open>True\<close> and the copy of \<open>u1\<close> is gone. With two workers: \<open>u2\<close> and \<open>u3\<close> both find
  \<open>IMG.jpg\<close> free before either writes, both choose it, both return \<open>True\<close>, and one file
  is left.
\<close>

theorem colliding_assets_overwrite:
  "fst (copy_asset (example_asset ''u1'' ''IMG_u3.jpg'' None) ''backup/DVD_1'' False False
          example_library)
   \<and> snd (copy_asset (example_asset ''u1'' ''IMG_u3.jpg'' None) ''backup/DVD_1'' False False
            example_library) ''backup/DVD_1/IMG_u3.jpg'' = Some (File (Opaque ''one''))
   \<and> fst (materialize ''backup/DVD_1'' False False []
          [example_asset ''u1'' ''IMG_u3.jpg'' None,
           example_asset ''u2'' ''IMG.jpg'' None,
           example_asset ''u3'' ''IMG.jpg'' None] example_library)
     = [Done (example_asset ''u1'' ''IMG_u3.jpg'' None) True,
        Done (example_asset ''u2'' ''IMG.jpg'' None) True,
        Done (example_asset ''u3'' ''IMG.jpg'' None) True]
   \<and> snd (materialize ''backup/DVD_1'' False False []
          [example_asset ''u1'' ''IMG_u3.jpg'' None,
           example_asset ''u2'' ''IMG.jpg'' None,
           example_asset ''u3'' ''IMG.jpg'' None] example_library)
        ''backup/DVD_1/IMG_u3.jpg'' = Some (File (Opaque ''three''))
   \<and> snd (materialize ''backup/DVD_1'' False False []
          [example_asset ''u1'' ''IMG_u3.jpg'' None,
           example_asset ''u2'' ''IMG.jpg'' None,
           example_asset ''u3'' ''IMG.jpg'' None] example_library)
        ''backup/DVD_1/IMG.jpg'' = Some (File (Opaque ''two''))
   \<and> fst (run_schedule ''backup/DVD_1'' False False [0, 1]
          [Pending (example_asset ''u2'' ''IMG.jpg'' None),
           Pending (example_asset ''u3'' ''IMG.jpg'' None)] example_library)
     = [Chosen (example_asset ''u2'' ''IMG.jpg'' None)
          ''/mnt/backup/immich-app/library/u2.jpg'' ''backup/DVD_1/IMG.jpg'',
        Chosen (example_asset ''u3'' ''IMG.jpg'' None)
          ''/mnt/backup/immich-app/library/u3.jpg'' ''backup/DVD_1/IMG.jpg'']
   \<and> fst (materialize ''backup/DVD_1'' False False [0, 1, 0, 1]
          [example_asset ''u2'' ''IMG.jpg'' None,
           example_asset ''u3'' ''IMG.jpg'' None] example_library)
     = [Done (example_asset ''u2'' ''IMG.jpg'' None) True,
        Done (example_asset ''u3'' ''IMG.jpg'' None) True]
   \<and> snd (materialize ''backup/DVD_1'' False False [0, 1, 0, 1]
          [example_asset ''u2'' ''IMG.jpg'' None,
           example_asset ''u3'' ''IMG.jpg'' None] example_library)
        ''backup/DVD_1/IMG.jpg'' = Some (File (Opaque ''three''))
   \<and> snd (materialize ''backup/DVD_1'' False False [0, 1, 0, 1]
          [example_asset ''u2'' ''IMG.jpg'' None,
           example_asset ''u3'' ''IMG.jpg'' None] example_library)
        ''backup/DVD_1/IMG_u3.jpg'' = None"
  by code_simp

text \<open>The same with hard links: the link fails on the existing path and the copy overwrites it.\<close>

lemma colliding_assets_with_links:
  "fst (materialize ''backup/DVD_1'' False True []
          [example_asset ''u1'' ''IMG_u3.jpg'' None,
           example_asset ''u2'' ''IMG.jpg'' None,
           example_asset ''u3'' ''IMG.jpg'' None] example_library)
     = [Done (example_asset ''u1'' ''IMG_u3.jpg'' None) True,
        Done (example_asset ''u2'' ''IMG.jpg'' None) True,
        Done (example_asset ''u3'' ''IMG.jpg'' None) True]
   \<and> snd (materialize ''backup/DVD_1'' False True []
          [example_asset ''u1'' ''IMG_u3.jpg'' None,
           example_asset ''u2'' ''IMG.jpg'' None,
           example_asset ''u3'' ''IMG.jpg'' None] example_library)
        ''backup/DVD_1/IMG_u3.jpg'' = Some (File (Opaque ''three''))"
  by code_simp

end
